theory Spec2Isabelle
  imports Main
begin

section \<open>JSON values\<close>

text \<open>
  A decoded payload is a tree of Python values: \<open>None\<close>, booleans, integers, floats,
  strings, lists and dicts with string keys. A dict is an association list in insertion
  order (the order \<open>values()\<close> iterates in); a lookup takes the first entry of a key.
  The program never computes with a float: it only asks for its truth value and its
  \<open>str()\<close>, so a float is carried by its \<open>repr\<close> text. A string is a list of
  characters with code points below 256.
\<close>

datatype json =
    JNull
  | JBool bool
  | JInt int
  | JFloat string
  | JStr string
  | JList "json list"
  | JDict "(string \<times> json) list"

type_synonym dict = "(string \<times> json) list"

text \<open>\<open>d.get(k)\<close>: the value of the key, \<open>None\<close> when the key is missing.\<close>

definition get :: "dict \<Rightarrow> string \<Rightarrow> json" where
  "get d k = (case map_of d k of None \<Rightarrow> JNull | Some v \<Rightarrow> v)"

text \<open>
  \<^verbatim>\<open>
  def _pick(d, *keys):
      for k in keys:
          if k in d and d[k] is not None:
              return d[k]
      return None
  \<close>
\<close>

fun pick :: "dict \<Rightarrow> string list \<Rightarrow> json" where
  "pick d [] = JNull"
| "pick d (k # keys) =
     (case map_of d k of
        Some v \<Rightarrow> if v \<noteq> JNull then v else pick d keys
      | None \<Rightarrow> pick d keys)"

section \<open>Record Discovery\<close>

definition PROFILE_KEYS :: "string set" where
  "PROFILE_KEYS = {''firstName'', ''fullName'', ''linkedinUrl''}"

definition ID_KEYS :: "string set" where
  "ID_KEYS = {''jobInfoId'', ''jobId'', ''job_id'', ''jobID'', ''id''}"

definition TITLE_KEYS :: "string set" where
  "TITLE_KEYS = {''jobTitle'', ''title'', ''positionTitle'', ''name''}"

definition COMPANY_KEYS :: "string set" where
  "COMPANY_KEYS = {''companyName'', ''company'', ''company_name''}"

definition APPLY_KEYS :: "string set" where
  "APPLY_KEYS = {''applyUrl'', ''applyURL'', ''applyLink'', ''externalUrl'', ''sourceUrl'',
     ''url'', ''originalUrl''}"

text \<open>
  \<^verbatim>\<open>
  def is_job(d):
      keys = set(d.keys())
      if keys & PROFILE_KEYS:
          return False
      has_id = bool(keys & ID_KEYS)
      has_title = bool(keys & TITLE_KEYS)
      has_company = bool(keys & COMPANY_KEYS)
      has_apply = bool(keys & APPLY_KEYS)
      return has_id and has_title and (has_company or has_apply)
  \<close>
\<close>

definition is_job :: "dict \<Rightarrow> bool" where
  "is_job d =
     (let keys = set (map fst d) in
      if keys \<inter> PROFILE_KEYS \<noteq> {} then False
      else
        let has_id = (keys \<inter> ID_KEYS \<noteq> {});
            has_title = (keys \<inter> TITLE_KEYS \<noteq> {});
            has_company = (keys \<inter> COMPANY_KEYS \<noteq> {});
            has_apply = (keys \<inter> APPLY_KEYS \<noteq> {})
        in has_id \<and> has_title \<and> (has_company \<or> has_apply))"

text \<open>
  \<^verbatim>\<open>
  def walk(x):
      if isinstance(x, dict):
          if is_job(x):
              jobs.append(x)
          for v in x.values():
              walk(v)
      elif isinstance(x, list):
          for i in x:
              walk(i)
  \<close>
  The closure appends to the list \<open>jobs\<close>; the model passes the list through.
\<close>

fun walk :: "json \<Rightarrow> dict list \<Rightarrow> dict list" where
  "walk (JDict d) jobs =
     fold walk (map snd d) (if is_job d then jobs @ [d] else jobs)"
| "walk (JList xs) jobs = fold walk xs jobs"
| "walk JNull jobs = jobs"
| "walk (JBool b) jobs = jobs"
| "walk (JInt i) jobs = jobs"
| "walk (JFloat r) jobs = jobs"
| "walk (JStr s) jobs = jobs"

definition extract_job_dicts :: "json \<Rightarrow> dict list" where
  "extract_job_dicts obj = walk obj []"

text \<open>
  For comparison with the source: the classification as the specification words it, over
  the set \<open>K\<close> of keys present with a non-null value, and all mapping nodes of a tree
  in depth-first pre-order.
\<close>

definition job_shape :: "string set \<Rightarrow> bool" where
  "job_shape K \<longleftrightarrow>
     K \<inter> PROFILE_KEYS = {} \<and> K \<inter> ID_KEYS \<noteq> {} \<and> K \<inter> TITLE_KEYS \<noteq> {} \<and>
     (K \<inter> COMPANY_KEYS \<noteq> {} \<or> K \<inter> APPLY_KEYS \<noteq> {})"

definition nonnull_keys :: "dict \<Rightarrow> string set" where
  "nonnull_keys d = set (filter (\<lambda>k. get d k \<noteq> JNull) (map fst d))"

definition spec_is_job :: "dict \<Rightarrow> bool" where
  "spec_is_job d = job_shape (nonnull_keys d)"

definition profile_shaped :: "dict \<Rightarrow> bool" where
  "profile_shaped d \<longleftrightarrow> set (map fst d) \<inter> PROFILE_KEYS \<noteq> {}"

fun subobjects :: "json \<Rightarrow> dict list" where
  "subobjects (JDict d) = d # concat (map subobjects (map snd d))"
| "subobjects (JList xs) = concat (map subobjects xs)"
| "subobjects _ = []"

section \<open>Python strings and truth values\<close>

text \<open>
  \<open>str.isspace\<close> on the code points below 256; \<open>str.strip()\<close> with no argument and the
  regular-expression class \<open>\s\<close> of a \<open>str\<close> pattern both use it.
\<close>

definition py_isspace :: "char \<Rightarrow> bool" where
  "py_isspace c \<longleftrightarrow>
     (let n = (of_char c :: nat) in (9 \<le> n \<and> n \<le> 13) \<or> (28 \<le> n \<and> n \<le> 32) \<or> n = 133 \<or> n = 160)"

definition strip :: "string \<Rightarrow> string" where
  "strip s = rev (dropWhile py_isspace (rev (dropWhile py_isspace s)))"

text \<open>
  \<open>str.lower()\<close> on the code points below 256: A-Z and the accented capitals move up
  by 32, which in these ranges sets the bit of value 32.
\<close>

definition lower_char :: "char \<Rightarrow> char" where
  "lower_char c =
     (let n = (of_char c :: nat) in
      if (65 \<le> n \<and> n \<le> 90) \<or> (192 \<le> n \<and> n \<le> 222 \<and> n \<noteq> 215) then
        (case c of Char b0 b1 b2 b3 b4 b5 b6 b7 \<Rightarrow> Char b0 b1 b2 b3 b4 True b6 b7)
      else c)"

definition lower :: "string \<Rightarrow> string" where
  "lower s = map lower_char s"

fun startswith :: "string \<Rightarrow> string \<Rightarrow> bool" where
  "startswith s [] = True"
| "startswith [] (p # ps) = False"
| "startswith (c # s) (p # ps) = (c = p \<and> startswith s ps)"

text \<open>\<open>x in s\<close> for strings: \<open>x\<close> occurs in \<open>s\<close> as a contiguous run.\<close>

fun contains :: "string \<Rightarrow> string \<Rightarrow> bool" where
  "contains [] x = (x = [])"
| "contains (c # s) x = (startswith (c # s) x \<or> contains s x)"

fun digits :: "nat \<Rightarrow> string" where
  "digits n =
     (if n < 10 then [''0123456789'' ! n]
      else digits (n div 10) @ [''0123456789'' ! (n mod 10)])"

text \<open>\<open>str(i)\<close> of an integer.\<close>

definition str_int :: "int \<Rightarrow> string" where
  "str_int i = (if i < 0 then CHR ''-'' # digits (nat (- i)) else digits (nat i))"

text \<open>\<open>bool(v)\<close>, as \<open>or\<close>, \<open>not\<close> and \<open>if\<close> take it.\<close>

fun truthy :: "json \<Rightarrow> bool" where
  "truthy JNull = False"
| "truthy (JBool b) = b"
| "truthy (JInt i) = (i \<noteq> 0)"
| "truthy (JFloat r) = (r \<noteq> ''0.0'' \<and> r \<noteq> ''-0.0'')"
| "truthy (JStr s) = (s \<noteq> [])"
| "truthy (JList xs) = (xs \<noteq> [])"
| "truthy (JDict d) = (d \<noteq> [])"

text \<open>\<open>a or b\<close>.\<close>

definition py_or :: "json \<Rightarrow> json \<Rightarrow> json" where
  "py_or a b = (if truthy a then a else b)"

text \<open>
  The standard library, as far as the program calls into it beyond the above. These
  functions are parameters of the model:
  \<^item> \<open>repr\<close>: the text \<open>str()\<close> gives for a list or a dict;
  \<^item> \<open>urlparse_path u\<close>: \<open>urlparse(u).path\<close>, or \<open>None\<close> where \<open>urlparse\<close> raises
    \<open>ValueError\<close> (it does on an unbalanced bracket in the network location);
  \<^item> \<open>urljoin b u\<close>: \<open>urljoin(b, u)\<close>, or \<open>None\<close> where it raises \<open>ValueError\<close>.
\<close>

record pylib =
  repr :: "json \<Rightarrow> string"
  urlparse_path :: "string \<Rightarrow> string option"
  urljoin :: "string \<Rightarrow> string \<Rightarrow> string option"

text \<open>\<open>str(v)\<close>, which is also what an f-string puts in for \<open>{v}\<close>.\<close>

fun py_str :: "pylib \<Rightarrow> json \<Rightarrow> string" where
  "py_str L JNull = ''None''"
| "py_str L (JBool b) = (if b then ''True'' else ''False'')"
| "py_str L (JInt i) = str_int i"
| "py_str L (JFloat r) = r"
| "py_str L (JStr s) = s"
| "py_str L (JList xs) = repr L (JList xs)"
| "py_str L (JDict d) = repr L (JDict d)"

text \<open>
  The exceptions the program can raise; \<open>OtherError\<close> carries the class name of any
  exception of the environment that is not one of the others.
\<close>

datatype error =
    AttributeError
  | ValueError
  | JSONDecodeError
  | FileNotFoundError
  | PermissionError string
  | OtherError string

section \<open>Field Normalizer\<close>

subsection \<open>Company\<close>

text \<open>
  \<^verbatim>\<open>_COMPANY_FROM_SUMMARY = re.compile(r"^([A-Z][A-Za-z0-9&.,'<U+2019>\- ]{1,80})\s+is\s+", re.UNICODE)\<close>
  (the class also holds the right single quotation mark U+2019, which is no character of
  this model). \<open>summary_tail\<close> is \<open>\s+is\s+\<close> at the head of a string: \<open>\s+\<close> must
  take the whole run of white space, since \<open>i\<close> has to follow it. The group is greedy:
  \<open>summary_group n\<close> takes up to \<open>n\<close> class characters and gives back one at a time
  until the tail matches; \<open>None\<close> when not even the empty run is followed by the tail.
\<close>

definition summary_char :: "char \<Rightarrow> bool" where
  "summary_char c \<longleftrightarrow>
     (let n = (of_char c :: nat) in
      (65 \<le> n \<and> n \<le> 90) \<or> (97 \<le> n \<and> n \<le> 122) \<or> (48 \<le> n \<and> n \<le> 57) \<or>
      c \<in> set ''&.,'- '')"

definition summary_tail :: "string \<Rightarrow> bool" where
  "summary_tail t \<longleftrightarrow>
     (let ws = takeWhile py_isspace t; r = dropWhile py_isspace t in
      ws \<noteq> [] \<and> startswith r ''is'' \<and> (case drop 2 r of [] \<Rightarrow> False | c # _ \<Rightarrow> py_isspace c))"

fun summary_group :: "nat \<Rightarrow> string \<Rightarrow> string option" where
  "summary_group n [] = None"
| "summary_group 0 (c # t) = (if summary_tail (c # t) then Some [] else None)"
| "summary_group (Suc n) (c # t) =
     (if summary_char c then
        (case summary_group n t of
           Some g \<Rightarrow> Some (c # g)
         | None \<Rightarrow> if summary_tail (c # t) then Some [] else None)
      else if summary_tail (c # t) then Some [] else None)"

text \<open>\<open>m = _COMPANY_FROM_SUMMARY.match(s)\<close>, giving \<open>m.group(1)\<close>.\<close>

definition COMPANY_FROM_SUMMARY :: "string \<Rightarrow> string option" where
  "COMPANY_FROM_SUMMARY s =
     (case s of
        c0 # c1 # t \<Rightarrow>
          if 65 \<le> (of_char c0 :: nat) \<and> (of_char c0 :: nat) \<le> 90 \<and> summary_char c1 then
            (case summary_group 79 t of Some g \<Rightarrow> Some (c0 # c1 # g) | None \<Rightarrow> None)
          else None
      | _ \<Rightarrow> None)"

text \<open>
  \<^verbatim>\<open>_COMPANY_FROM_LOGO = re.compile(r"/([A-Za-z0-9-]+)_logo", re.IGNORECASE)\<close>
  searched for: the leftmost slash after which a non-empty run of class characters is
  followed by \<open>_logo\<close> in any case. The run is the whole run, since \<open>_\<close> is not in
  the class; no later start lies inside it, since \<open>/\<close> is not in the class either.
\<close>

definition logo_char :: "char \<Rightarrow> bool" where
  "logo_char c \<longleftrightarrow>
     (let n = (of_char c :: nat) in
      (65 \<le> n \<and> n \<le> 90) \<or> (97 \<le> n \<and> n \<le> 122) \<or> (48 \<le> n \<and> n \<le> 57) \<or> c = CHR ''-'')"

fun COMPANY_FROM_LOGO :: "string \<Rightarrow> string option" where
  "COMPANY_FROM_LOGO [] = None"
| "COMPANY_FROM_LOGO (c # t) =
     (if c = CHR ''/'' \<and> takeWhile logo_char t \<noteq> [] \<and>
         lower (take 5 (dropWhile logo_char t)) = ''_logo''
      then Some (takeWhile logo_char t)
      else COMPANY_FROM_LOGO t)"

text \<open>\<open>isinstance(c, str) and c.strip()\<close>, giving \<open>c.strip()\<close>.\<close>

fun stripped_str :: "json \<Rightarrow> string option" where
  "stripped_str (JStr s) = (if strip s \<noteq> [] then Some (strip s) else None)"
| "stripped_str _ = None"

text \<open>The loops of \<open>extract_company\<close> over the nested company objects and over the contacts.\<close>

fun company_info_loop :: "dict \<Rightarrow> string list \<Rightarrow> string option" where
  "company_info_loop job [] = None"
| "company_info_loop job (k # ks) =
     (case get job k of
        JDict v \<Rightarrow>
          (case stripped_str (pick v [''name'', ''companyName'', ''displayName'']) of
             Some c \<Rightarrow> Some c
           | None \<Rightarrow> company_info_loop job ks)
      | _ \<Rightarrow> company_info_loop job ks)"

fun social_loop :: "json list \<Rightarrow> string option" where
  "social_loop [] = None"
| "social_loop (person # sc) =
     (case person of
        JDict p \<Rightarrow>
          (case stripped_str (get p ''companyName'') of
             Some c \<Rightarrow> Some c
           | None \<Rightarrow> social_loop sc)
      | _ \<Rightarrow> social_loop sc)"

text \<open>
  \<^verbatim>\<open>
  def extract_company(job):
      company = _pick(job, "companyName", "company", "company_name", "jdCompanyName",
                      "companyDisplayName", "companyTitle")
      if isinstance(company, dict):
          company = _pick(company, "name", "companyName")
      if isinstance(company, str) and company.strip():
          return company.strip()
      for k in ("companyInfo", "companyVO", "companyDto"): ...
      sc = job.get("socialConnections")
      if isinstance(sc, list): ...
      summary = job.get("jobSummary")
      if isinstance(summary, str) and summary.strip():
          m = _COMPANY_FROM_SUMMARY.match(summary.strip())
          if m:
              return m.group(1).strip()
      logo = job.get("jdLogo")
      if isinstance(logo, str) and logo.strip():
          m = _COMPANY_FROM_LOGO.search(urlparse(logo).path)
          if m:
              return m.group(1)
      return None
  \<close>
  The result is \<open>Inr (Some c)\<close> for a company, \<open>Inr None\<close> for \<open>None\<close>, and \<open>Inl\<close> an
  exception.
\<close>

definition extract_company :: "pylib \<Rightarrow> dict \<Rightarrow> error + string option" where
  "extract_company L job =
     (let company = pick job [''companyName'', ''company'', ''company_name'', ''jdCompanyName'',
                              ''companyDisplayName'', ''companyTitle''];
          company = (case company of JDict c \<Rightarrow> pick c [''name'', ''companyName''] | _ \<Rightarrow> company)
      in
      case stripped_str company of
        Some c \<Rightarrow> Inr (Some c)
      | None \<Rightarrow>
      (case company_info_loop job [''companyInfo'', ''companyVO'', ''companyDto''] of
        Some c \<Rightarrow> Inr (Some c)
      | None \<Rightarrow>
      (case (case get job ''socialConnections'' of JList sc \<Rightarrow> social_loop sc | _ \<Rightarrow> None) of
        Some c \<Rightarrow> Inr (Some c)
      | None \<Rightarrow>
      (case (case stripped_str (get job ''jobSummary'') of
               Some s \<Rightarrow> COMPANY_FROM_SUMMARY s
             | None \<Rightarrow> None) of
        Some g \<Rightarrow> Inr (Some (strip g))
      | None \<Rightarrow>
      (case get job ''jdLogo'' of
        JStr logo \<Rightarrow>
          if strip logo \<noteq> [] then
            (case urlparse_path L logo of
               None \<Rightarrow> Inl ValueError
             | Some path \<Rightarrow> Inr (COMPANY_FROM_LOGO path))
          else Inr None
      | _ \<Rightarrow> Inr None)))))"

subsection \<open>Recruiters\<close>

record recruiter =
  fullName :: json
  jobTitle :: json
  companyName :: json
  linkedinUrl :: json

text \<open>\<open>d.get(k, default)\<close>: the default only when the key is missing.\<close>

definition get_default :: "dict \<Rightarrow> string \<Rightarrow> json \<Rightarrow> json" where
  "get_default d k dflt = (case map_of d k of None \<Rightarrow> dflt | Some v \<Rightarrow> v)"

text \<open>
  \<^verbatim>\<open>
  def extract_linkedin_recruiters(job):
      sc = job.get("socialConnections")
      if not isinstance(sc, list):
          return []
      out = []
      for p in sc:
          if not isinstance(p, dict):
              continue
          title = (p.get("jobTitle") or "")
          title_l = title.lower()
          if any(x in title_l for x in ("recruit", "talent", "sourc", "hr")):
              out.append({
                  "fullName": p.get("fullName") or (f"{p.get('firstName','')}".strip() or None),
                  "jobTitle": p.get("jobTitle"),
                  "companyName": p.get("companyName"),
                  "linkedinUrl": p.get("linkedinUrl"),
              })
      return out
  \<close>
  Only a string has \<open>lower\<close>: on any other value that is true, \<open>title.lower()\<close> raises
  \<open>AttributeError\<close>.
\<close>

fun recruiters_loop :: "pylib \<Rightarrow> json list \<Rightarrow> recruiter list \<Rightarrow> error + recruiter list" where
  "recruiters_loop L [] out = Inr out"
| "recruiters_loop L (p # sc) out =
     (case p of
        JDict pd \<Rightarrow>
          (case py_or (get pd ''jobTitle'') (JStr '''') of
             JStr title \<Rightarrow>
               let title_l = lower title in
               if list_ex (contains title_l) [''recruit'', ''talent'', ''sourc'', ''hr''] then
                 recruiters_loop L sc (out @
                   [\<lparr>fullName =
                       py_or (get pd ''fullName'')
                         (let s = strip (py_str L (get_default pd ''firstName'' (JStr '''')))
                          in if s \<noteq> [] then JStr s else JNull),
                     jobTitle = get pd ''jobTitle'',
                     companyName = get pd ''companyName'',
                     linkedinUrl = get pd ''linkedinUrl''\<rparr>])
               else recruiters_loop L sc out
           | _ \<Rightarrow> Inl AttributeError)
      | _ \<Rightarrow> recruiters_loop L sc out)"

definition extract_linkedin_recruiters :: "pylib \<Rightarrow> dict \<Rightarrow> error + recruiter list" where
  "extract_linkedin_recruiters L job =
     (case get job ''socialConnections'' of
        JList sc \<Rightarrow> recruiters_loop L sc []
      | _ \<Rightarrow> Inr [])"

subsection \<open>Keywords\<close>

text \<open>
  \<^verbatim>\<open>
  def extract_keywords(job, max_kw=25):
      kws = []
      core = job.get("jdCoreSkills")
      if isinstance(core, list):
          for s in core:
              if isinstance(s, dict) and isinstance(s.get("skill"), str):
                  kws.append(s["skill"])
      sms = job.get("skillMatchingScores")
      if isinstance(sms, list):
          for s in sms:
              if isinstance(s, dict):
                  name = s.get("displayName") or s.get("featureName")
                  if isinstance(name, str):
                      kws.append(name)
      for k in ("recommendationTags", "jobTags"):
          v = job.get(k)
          if isinstance(v, list):
              for x in v:
                  if isinstance(x, str):
                      kws.append(x)
      v3 = job.get("jobTaxonomyV3")
      if isinstance(v3, list):
          for x in v3:
              if isinstance(x, str):
                  kws.append(x)
      ft = job.get("firstTaxonomy")
      if isinstance(ft, str):
          kws.append(ft)
      seen = set()
      out = []
      for x in kws:
          x = x.strip()
          if not x or x in seen:
              continue
          seen.add(x)
          out.append(x)
          if len(out) >= max_kw:
              break
      return out
  \<close>
  Each source adds to \<open>kws\<close> in turn; the model has one function for what a source adds.
\<close>

fun core_skills :: "json \<Rightarrow> string list" where
  "core_skills (JList (JDict s # core)) =
     (case get s ''skill'' of
        JStr k \<Rightarrow> k # core_skills (JList core)
      | _ \<Rightarrow> core_skills (JList core))"
| "core_skills (JList (_ # core)) = core_skills (JList core)"
| "core_skills _ = []"

fun matching_scores :: "json \<Rightarrow> string list" where
  "matching_scores (JList (JDict s # sms)) =
     (case py_or (get s ''displayName'') (get s ''featureName'') of
        JStr name \<Rightarrow> name # matching_scores (JList sms)
      | _ \<Rightarrow> matching_scores (JList sms))"
| "matching_scores (JList (_ # sms)) = matching_scores (JList sms)"
| "matching_scores _ = []"

fun str_items :: "json \<Rightarrow> string list" where
  "str_items (JList (JStr x # v)) = x # str_items (JList v)"
| "str_items (JList (_ # v)) = str_items (JList v)"
| "str_items _ = []"

definition keyword_sources :: "dict \<Rightarrow> string list" where
  "keyword_sources job =
     core_skills (get job ''jdCoreSkills'') @
     matching_scores (get job ''skillMatchingScores'') @
     str_items (get job ''recommendationTags'') @
     str_items (get job ''jobTags'') @
     str_items (get job ''jobTaxonomyV3'') @
     (case get job ''firstTaxonomy'' of JStr ft \<Rightarrow> [ft] | _ \<Rightarrow> [])"

text \<open>The final loop, with its \<open>continue\<close> and its \<open>break\<close>.\<close>

fun keywords_loop :: "int \<Rightarrow> string list \<Rightarrow> string set \<Rightarrow> string list \<Rightarrow> string list" where
  "keywords_loop max_kw [] seen out = out"
| "keywords_loop max_kw (x # kws) seen out =
     (let x = strip x in
      if x = [] \<or> x \<in> seen then keywords_loop max_kw kws seen out
      else if int (length (out @ [x])) \<ge> max_kw then out @ [x]
      else keywords_loop max_kw kws (insert x seen) (out @ [x]))"

definition extract_keywords :: "dict \<Rightarrow> int \<Rightarrow> string list" where
  "extract_keywords job max_kw = keywords_loop max_kw (keyword_sources job) {} []"

section \<open>Pagination Driver\<close>

definition BASE :: string where
  "BASE = ''https://jobright.ai''"

definition RECS_PAGE :: string where
  "RECS_PAGE = BASE @ ''/jobs/recommend''"

definition RECS_API :: string where
  "RECS_API = BASE @ ''/swan/recommend/list/jobs''"

subsection \<open>One record\<close>

text \<open>
  The dict appended to \<open>out\<close> for one job; \<open>None\<close> in a field is \<open>JNull\<close> or \<open>None\<close>.
  The field \<open>keyword_list\<close> is the key \<open>"keywords"\<close>.
\<close>

record job =
  jobId :: "string option"
  title :: json
  company :: json
  location :: json
  jobright_url :: "string option"
  apply_url :: "string option"
  linkedin_recruiters :: "recruiter list"
  keyword_list :: "string list"
  raw :: dict

text \<open>
  \<^verbatim>\<open>
  def norm_url(u):
      if not isinstance(u, str) or not u.strip():
          return None
      u = u.strip()
      return urljoin(BASE, u) if u.startswith("/") else u
  \<close>
\<close>

definition norm_url :: "pylib \<Rightarrow> json \<Rightarrow> error + string option" where
  "norm_url L u =
     (case u of
        JStr s \<Rightarrow>
          if strip s = [] then Inr None
          else
            let u = strip s in
            if startswith u ''/'' then
              (case urljoin L BASE u of
                 None \<Rightarrow> Inl ValueError
               | Some a \<Rightarrow> Inr (Some a))
            else Inr (Some u)
      | _ \<Rightarrow> Inr None)"

text \<open>
  The body of the \<open>for j in job_dicts\<close> loop from \<open>title = ...\<close> to the dict it appends:
  \<^verbatim>\<open>
  title = _pick(j, "jobTitle", "title", "positionTitle", "name")
  company = _pick(j, "companyName", "company", "company_name")
  if isinstance(company, dict):
      company = _pick(company, "name", "companyName")
  if not company:
      company = extract_company(j)
  location = _pick(j, "jobLocation", "location", "locationName", "city")
  if isinstance(location, dict):
      location = _pick(location, "name", "displayName")
  apply_url = _pick(j, "applyUrl", "applyURL", "applyLink",
                    "externalUrl", "sourceUrl", "url", "originalUrl")
  apply_url = norm_url(apply_url)
  jobright_url = _pick(j, "detailUrl", "jobUrl", "infoUrl", "jobrightUrl")
  jobright_url = norm_url(jobright_url)
  if jobright_url is None and job_id_str:
      jobright_url = f"{BASE}/jobs/info/{job_id_str}"
  linkedin_recruiters = extract_linkedin_recruiters(j)
  keywords = extract_keywords(j)
  \<close>
  An exception of a callee leaves the body at that call. The variables carry a prime,
  their names being the field names of the record.
\<close>

definition normalize_job :: "pylib \<Rightarrow> dict \<Rightarrow> string option \<Rightarrow> error + job" where
  "normalize_job L j job_id_str =
     (let title' = pick j [''jobTitle'', ''title'', ''positionTitle'', ''name''];
          company' = pick j [''companyName'', ''company'', ''company_name''];
          company' = (case company' of JDict c \<Rightarrow> pick c [''name'', ''companyName''] | _ \<Rightarrow> company')
      in
      case (if \<not> truthy company' then
              (case extract_company L j of
                 Inl e \<Rightarrow> Inl e
               | Inr None \<Rightarrow> Inr JNull
               | Inr (Some c) \<Rightarrow> Inr (JStr c))
            else Inr company') of
        Inl e \<Rightarrow> Inl e
      | Inr company' \<Rightarrow>
      let location' = pick j [''jobLocation'', ''location'', ''locationName'', ''city''];
          location' = (case location' of JDict l \<Rightarrow> pick l [''name'', ''displayName''] | _ \<Rightarrow> location')
      in
      case norm_url L (pick j [''applyUrl'', ''applyURL'', ''applyLink'', ''externalUrl'',
                               ''sourceUrl'', ''url'', ''originalUrl'']) of
        Inl e \<Rightarrow> Inl e
      | Inr apply_url' \<Rightarrow>
      case norm_url L (pick j [''detailUrl'', ''jobUrl'', ''infoUrl'', ''jobrightUrl'']) of
        Inl e \<Rightarrow> Inl e
      | Inr jobright_url' \<Rightarrow>
      let jobright_url' =
            (case job_id_str of
               Some i \<Rightarrow>
                 if jobright_url' = None \<and> i \<noteq> [] then Some (BASE @ ''/jobs/info/'' @ i)
                 else jobright_url'
             | None \<Rightarrow> jobright_url')
      in
      case extract_linkedin_recruiters L j of
        Inl e \<Rightarrow> Inl e
      | Inr linkedin_recruiters' \<Rightarrow>
      let keywords' = extract_keywords j 25 in
      Inr \<lparr>jobId = job_id_str, title = title', company = company', location = location',
           jobright_url = jobright_url', apply_url = apply_url',
           linkedin_recruiters = linkedin_recruiters', keyword_list = keywords', raw = j\<rparr>)"

subsection \<open>One page\<close>

text \<open>
  \<open>probe_id\<close> is \<open>job_id_str\<close>: the text of the first identifier alias with a non-null
  value.
  \<^verbatim>\<open>
  added = 0
  for j in job_dicts:
      job_id = _pick(j, "jobInfoId", "jobId", "id", "job_id", "jobID")
      job_id_str = str(job_id) if job_id is not None else None
      if job_id_str and job_id_str in seen_ids:
          continue
      ...
      out.append({...})
      if job_id_str:
          seen_ids.add(job_id_str)
      added += 1
      if len(out) >= max_items:
          break
  \<close>
  The loop works on \<open>out\<close>, \<open>seen_ids\<close> and \<open>added\<close> and returns them.
\<close>

definition probe_id :: "pylib \<Rightarrow> dict \<Rightarrow> string option" where
  "probe_id L j =
     (let job_id = pick j [''jobInfoId'', ''jobId'', ''id'', ''job_id'', ''jobID'']
      in if job_id \<noteq> JNull then Some (py_str L job_id) else None)"

text \<open>\<open>job_id_str and job_id_str in seen_ids\<close>; an empty text is false.\<close>

fun seen_before :: "string option \<Rightarrow> string set \<Rightarrow> bool" where
  "seen_before None seen_ids = False"
| "seen_before (Some i) seen_ids = (i \<noteq> [] \<and> i \<in> seen_ids)"

text \<open>\<open>if job_id_str: seen_ids.add(job_id_str)\<close>.\<close>

fun remember :: "string option \<Rightarrow> string set \<Rightarrow> string set" where
  "remember None seen_ids = seen_ids"
| "remember (Some i) seen_ids = (if i \<noteq> [] then insert i seen_ids else seen_ids)"

fun page_loop ::
  "pylib \<Rightarrow> int \<Rightarrow> dict list \<Rightarrow> job list \<Rightarrow> string set \<Rightarrow> nat \<Rightarrow>
   error + (job list \<times> string set \<times> nat)" where
  "page_loop L max_items [] out seen_ids added = Inr (out, seen_ids, added)"
| "page_loop L max_items (j # job_dicts) out seen_ids added =
     (let job_id_str = probe_id L j in
      if seen_before job_id_str seen_ids then
        page_loop L max_items job_dicts out seen_ids added
      else
        case normalize_job L j job_id_str of
          Inl e \<Rightarrow> Inl e
        | Inr r \<Rightarrow>
            let out = out @ [r];
                seen_ids = remember job_id_str seen_ids;
                added = added + 1
            in
            if int (length out) \<ge> max_items then Inr (out, seen_ids, added)
            else page_loop L max_items job_dicts out seen_ids added)"

subsection \<open>The browser\<close>

text \<open>
  The browser is the environment of a run. It is taken to answer every navigation (a
  navigation that times out is caught by the program and changes nothing) and every
  request. \<open>api n url\<close> is the answer to the \<open>n\<close>-th request of the run when it asks
  for \<open>url\<close>: the HTTP status, and what \<open>resp.json()\<close> gives for the body: the decoded value,
  or the exception it raises (\<open>JSONDecodeError\<close> on a text that is not JSON, plain
  \<open>ValueError\<close> on an integer literal beyond the interpreter's digit limit, another
  one such as \<open>RecursionError\<close> on a body nested too deep). What the program does to
  the browser and to the disk is recorded as a list of events.
\<close>

record response =
  status :: int
  body :: "error + json"

record env =
  state_file_exists :: bool
  api :: "nat \<Rightarrow> string \<Rightarrow> response"

datatype event =
    ReadState
  | Goto string
  | Get string
  | DumpPayload json
  | WriteState
  | CloseBrowser

text \<open>The variables of \<open>fetch_recommendations_via_api\<close>, the number of requests made, and the events.\<close>

record state =
  out :: "job list"
  seen_ids :: "string set"
  position :: int
  refresh :: string
  calls :: nat
  trace :: "event list"

text \<open>
  \<open>urlencode\<close> of a dict of strings. It quotes each key and value, which leaves letters,
  digits and the minus sign as they are; nothing else occurs here.
\<close>

fun urlencode :: "(string \<times> string) list \<Rightarrow> string" where
  "urlencode [] = []"
| "urlencode [(k, v)] = k @ ''='' @ v"
| "urlencode ((k, v) # q) = k @ ''='' @ v @ ''&'' @ urlencode q"

definition request_url :: "string \<Rightarrow> int \<Rightarrow> int \<Rightarrow> int \<Rightarrow> string" where
  "request_url rf sort_condition pos count =
     RECS_API @ ''?'' @
     urlencode [(''refresh'', rf), (''sortCondition'', str_int sort_condition),
                (''position'', str_int pos), (''count'', str_int count)]"

text \<open>
  \<^verbatim>\<open>
  resp = page.request.get(url, headers=...)
  if resp.status in (401, 403):
      try:
          page.goto(RECS_PAGE, wait_until="domcontentloaded", timeout=60_000)
      except PWTimeoutError:
          pass
      page.wait_for_timeout(1200)
      resp = page.request.get(url, headers=...)
  \<close>
\<close>

definition get_page :: "env \<Rightarrow> state \<Rightarrow> string \<Rightarrow> response \<times> state" where
  "get_page E st url =
     (let resp = api E (calls st) url;
          st = st\<lparr>calls := calls st + 1, trace := trace st @ [Get url]\<rparr>
      in
      if status resp = 401 \<or> status resp = 403 then
        let st = st\<lparr>trace := trace st @ [Goto RECS_PAGE]\<rparr>;
            resp = api E (calls st) url;
            st = st\<lparr>calls := calls st + 1, trace := trace st @ [Get url]\<rparr>
        in (resp, st)
      else (resp, st))"

definition auth_message :: "string \<Rightarrow> int \<Rightarrow> string" where
  "auth_message url code =
     ''Auth failed calling '' @ url @ '' (HTTP '' @ str_int code @ ''). Run with --login again.''"

text \<open>
  One turn of \<open>while len(out) < max_items\<close>: it goes on to the next turn, leaves the loop
  by \<open>break\<close>, or raises.
  \<^verbatim>\<open>
  count = min(page_size, max_items - len(out))
  qs = urlencode({"refresh": refresh, "sortCondition": str(sort_condition),
                  "position": str(position), "count": str(count)})
  url = f"{RECS_API}?{qs}"
  resp = ...                      # the request, and the retry after 401/403
  if resp.status in (401, 403):
      browser.close()
      raise PermissionError(f"Auth failed calling {url} (HTTP {resp.status}). Run with --login again.")
  if resp.status != 200:
      break
  data = resp.json()
  job_dicts = _extract_job_dicts(data)
  if not job_dicts:
      with open("jobright_debug_payload.json", "w", encoding="utf-8") as f:
          json.dump(data, f, indent=2)
      break
  added = 0
  for j in job_dicts: ...
  if added == 0:
      break
  position += count
  refresh = "false"
  \<close>
\<close>

datatype outcome = Continue state | Break state | Raise error state

definition iteration :: "pylib \<Rightarrow> env \<Rightarrow> int \<Rightarrow> int \<Rightarrow> int \<Rightarrow> state \<Rightarrow> outcome" where
  "iteration L E max_items sort_condition page_size st =
     (let count = min page_size (max_items - int (length (out st)));
          url = request_url (refresh st) sort_condition (position st) count;
          (resp, st) = get_page E st url
      in
      if status resp = 401 \<or> status resp = 403 then
        Raise (PermissionError (auth_message url (status resp)))
          (st\<lparr>trace := trace st @ [CloseBrowser]\<rparr>)
      else if status resp \<noteq> 200 then Break st
      else
        case body resp of
          Inl e \<Rightarrow> Raise e st
        | Inr data \<Rightarrow>
            let job_dicts = extract_job_dicts data in
            if job_dicts = [] then Break (st\<lparr>trace := trace st @ [DumpPayload data]\<rparr>)
            else
              case page_loop L max_items job_dicts (out st) (seen_ids st) 0 of
                Inl e \<Rightarrow> Raise e st
              | Inr (out', seen_ids', added) \<Rightarrow>
                  let st = st\<lparr>out := out', seen_ids := seen_ids'\<rparr> in
                  if added = 0 then Break st
                  else Continue (st\<lparr>position := position st + count, refresh := ''false''\<rparr>))"

text \<open>
  The \<open>while\<close> loop. It ends with the state and no exception, or with an exception.
\<close>

function loop ::
  "pylib \<Rightarrow> env \<Rightarrow> int \<Rightarrow> int \<Rightarrow> int \<Rightarrow> state \<Rightarrow> error option \<times> state" where
  "loop L E max_items sort_condition page_size st =
     (if int (length (out st)) < max_items then
        (case iteration L E max_items sort_condition page_size st of
           Continue st' \<Rightarrow> loop L E max_items sort_condition page_size st'
         | Break st' \<Rightarrow> (None, st')
         | Raise e st' \<Rightarrow> (Some e, st'))
      else (None, st))"
  by pat_completeness auto

text \<open>
  The loop terminates: a turn that goes on has appended at least one record, and the
  loop runs only while fewer than \<open>max_items\<close> records have been collected.
\<close>

lemma page_loop_skip:
  "seen_before (probe_id L j) seen \<Longrightarrow>
   page_loop L max_items (j # js) acc seen n = page_loop L max_items js acc seen n"
  by simp

lemma page_loop_raise:
  "\<not> seen_before (probe_id L j) seen \<Longrightarrow> normalize_job L j (probe_id L j) = Inl e \<Longrightarrow>
   page_loop L max_items (j # js) acc seen n = Inl e"
  by simp

lemma page_loop_append:
  "\<not> seen_before (probe_id L j) seen \<Longrightarrow> normalize_job L j (probe_id L j) = Inr r \<Longrightarrow>
   page_loop L max_items (j # js) acc seen n =
     (if int (length (acc @ [r])) \<ge> max_items
      then Inr (acc @ [r], remember (probe_id L j) seen, n + 1)
      else page_loop L max_items js (acc @ [r]) (remember (probe_id L j) seen) (n + 1))"
  by (simp add: Let_def)

declare page_loop.simps(2) [simp del]

lemma page_loop_added:
  "page_loop L max_items js acc seen n = Inr (acc', seen', n') \<Longrightarrow>
   length acc' = length acc + (n' - n) \<and> n \<le> n'"
proof (induction js arbitrary: acc seen n)
  case Nil
  then show ?case by simp
next
  case (Cons j js)
  show ?case
  proof (cases "seen_before (probe_id L j) seen")
    case True
    with Cons.prems have "page_loop L max_items js acc seen n = Inr (acc', seen', n')"
      by (simp add: page_loop_skip)
    then show ?thesis by (rule Cons.IH)
  next
    case False
    show ?thesis
    proof (cases "normalize_job L j (probe_id L j)")
      case (Inl e)
      with False Cons.prems show ?thesis by (simp add: page_loop_raise)
    next
      case (Inr r)
      show ?thesis
      proof (cases "int (length (acc @ [r])) \<ge> max_items")
        case True
        with False Inr Cons.prems show ?thesis by (auto simp: page_loop_append)
      next
        case nf: False
        with False Inr Cons.prems
        have "page_loop L max_items js (acc @ [r]) (remember (probe_id L j) seen) (n + 1)
              = Inr (acc', seen', n')"
          by (simp add: page_loop_append)
        from Cons.IH [OF this]
        have "length acc' = Suc (length acc) + (n' - Suc n)" and "Suc n \<le> n'"
          by simp_all
        then show ?thesis by linarith
      qed
    qed
  qed
qed

lemma get_page_out: "get_page E st url = (resp, st') \<Longrightarrow> out st' = out st"
  by (auto simp: get_page_def Let_def split: if_splits)

lemma iteration_Continue_grows:
  assumes "iteration L E max_items sort_condition page_size st = Continue st'"
  shows "length (out st) < length (out st')"
proof -
  let ?url = "request_url (refresh st) sort_condition (position st)
                (min page_size (max_items - int (length (out st))))"
  obtain resp st1 where g: "get_page E st ?url = (resp, st1)"
    by (cases "get_page E st ?url")
  then have o: "out st1 = out st" by (rule get_page_out)
  from assms g obtain data acc' seen' n' where
    p: "page_loop L max_items (extract_job_dicts data) (out st1) (seen_ids st1) 0
          = Inr (acc', seen', n')" and n: "n' \<noteq> 0" and s: "out st' = acc'"
    by (auto simp: iteration_def Let_def split: if_splits option.splits sum.splits prod.splits)
  from page_loop_added [OF p] n o s show ?thesis by simp
qed

termination loop
proof (relation "measure (\<lambda>(L, E, max_items, sort_condition, page_size, st).
                   nat (max_items - int (length (out st))))")
  show "wf (measure (\<lambda>(L, E, max_items, sort_condition, page_size, st).
              nat (max_items - int (length (out st)))))"
    by simp
next
  fix L E max_items sort_condition page_size st st'
  assume "int (length (out st)) < max_items"
    and "iteration L E max_items sort_condition page_size st = Continue st'"
  then show "((L, E, max_items, sort_condition, page_size, st'),
              (L, E, max_items, sort_condition, page_size, st))
             \<in> measure (\<lambda>(L, E, max_items, sort_condition, page_size, st).
                   nat (max_items - int (length (out st))))"
    using iteration_Continue_grows [of L E max_items sort_condition page_size st st']
    by simp
qed

text \<open>
  \<^verbatim>\<open>
  def fetch_recommendations_via_api(max_items, sort_condition=0, page_size=10):
      out = []
      seen_ids = set()
      with sync_playwright() as p:
          browser = p.chromium.launch(headless=True)
          context = browser.new_context(storage_state=STATE_FILE)
          page = context.new_page()
          try:
              page.goto(RECS_PAGE, wait_until="domcontentloaded", timeout=60_000)
          except PWTimeoutError:
              pass
          page.wait_for_timeout(1500)
          position = 0
          refresh = "true"
          while len(out) < max_items: ...
          context.storage_state(path=STATE_FILE)
          browser.close()
      return out
  \<close>
  The result is the list returned or the exception raised, with the events of the run.
  Creating the context reads the session-state file and raises \<open>FileNotFoundError\<close> when
  there is none.
\<close>

definition fetch_recommendations_via_api ::
  "pylib \<Rightarrow> env \<Rightarrow> int \<Rightarrow> int \<Rightarrow> int \<Rightarrow> (error + job list) \<times> event list" where
  "fetch_recommendations_via_api L E max_items sort_condition page_size =
     (if \<not> state_file_exists E then (Inl FileNotFoundError, [ReadState])
      else
        case loop L E max_items sort_condition page_size
               \<lparr>out = [], seen_ids = {}, position = 0, refresh = ''true'', calls = 0,
                trace = [ReadState, Goto RECS_PAGE]\<rparr> of
          (None, st) \<Rightarrow> (Inr (out st), trace st @ [WriteState, CloseBrowser])
        | (Some e, st) \<Rightarrow> (Inl e, trace st))"

section \<open>Definitions for stating the properties\<close>

text \<open>
  Keeping the first occurrence of every element; the keyword list as the specification
  words it: trim each, drop the empty ones, deduplicate in first-seen order.
\<close>

fun dedup_first :: "'a list \<Rightarrow> 'a list" where
  "dedup_first [] = []"
| "dedup_first (x # xs) = x # dedup_first (removeAll x xs)"

definition clean_keywords :: "string list \<Rightarrow> string list" where
  "clean_keywords kws = dedup_first (filter (\<lambda>x. x \<noteq> []) (map strip kws))"









text \<open>
  The ids of a list of records that are present and not the empty text, in order.
\<close>

definition ids_of :: "job list \<Rightarrow> string list" where
  "ids_of rs =
     concat (map (\<lambda>r. case jobId r of Some i \<Rightarrow> if i \<noteq> [] then [i] else [] | None \<Rightarrow> []) rs)"

text \<open>
  The invariant of de-duplication: no two of these ids in the output are equal, and all
  of them are in the seen-ID set.
\<close>

definition deduplicated :: "job list \<Rightarrow> string set \<Rightarrow> bool" where
  "deduplicated acc seen \<longleftrightarrow> distinct (ids_of acc) \<and> set (ids_of acc) \<subseteq> seen"

text \<open>The ids of a list of records that are present, empty or not.\<close>

definition present_ids :: "job list \<Rightarrow> string list" where
  "present_ids rs = concat (map (\<lambda>r. case jobId r of Some i \<Rightarrow> [i] | None \<Rightarrow> []) rs)"

text \<open>
  The events of a run that are page requests, and the session-state claim in the words
  of the specification, for a run all of whose requests succeed: after each page request
  the session state is written before the next request is made.
\<close>

fun is_Get :: "event \<Rightarrow> bool" where
  "is_Get (Get u) = True"
| "is_Get _ = False"

fun written_after_each_page :: "event list \<Rightarrow> bool" where
  "written_after_each_page [] = True"
| "written_after_each_page (Get u # tr) =
     (WriteState \<in> set (takeWhile (\<lambda>e. \<not> is_Get e) tr) \<and> written_after_each_page tr)"
| "written_after_each_page (e # tr) = written_after_each_page tr"

text \<open>
  The state a turn of the loop ends in, and the answer a turn works on (after 401 or
  403, the answer to the repeated request).
\<close>

fun state_of :: "outcome \<Rightarrow> state" where
  "state_of (Continue st) = st"
| "state_of (Break st) = st"
| "state_of (Raise e st) = st"

definition turn_url :: "int \<Rightarrow> int \<Rightarrow> int \<Rightarrow> state \<Rightarrow> string" where
  "turn_url max_items sort_condition page_size st =
     request_url (refresh st) sort_condition (position st)
       (min page_size (max_items - int (length (out st))))"

definition turn_response :: "env \<Rightarrow> int \<Rightarrow> int \<Rightarrow> int \<Rightarrow> state \<Rightarrow> response" where
  "turn_response E max_items sort_condition page_size st =
     fst (get_page E st (turn_url max_items sort_condition page_size st))"

text \<open>
  The state in which the loop is entered, and the state at the start of the turn after
  \<open>k\<close> turns that went on, when the loop gets that far.
\<close>

definition first_state :: state where
  "first_state =
     \<lparr>out = [], seen_ids = {}, position = 0, refresh = ''true'', calls = 0,
      trace = [ReadState, Goto RECS_PAGE]\<rparr>"

fun after_turns ::
  "pylib \<Rightarrow> env \<Rightarrow> int \<Rightarrow> int \<Rightarrow> int \<Rightarrow> nat \<Rightarrow> state \<Rightarrow> state option" where
  "after_turns L E max_items sort_condition page_size 0 st = Some st"
| "after_turns L E max_items sort_condition page_size (Suc k) st =
     (if int (length (out st)) < max_items then
        (case iteration L E max_items sort_condition page_size st of
           Continue st' \<Rightarrow> after_turns L E max_items sort_condition page_size k st'
         | Break st' \<Rightarrow> None
         | Raise e st' \<Rightarrow> None)
      else None)"

text \<open>
  A library instance for the examples. It agrees with the standard library on the strings
  the examples pass to it: a text with no scheme, network location, query, fragment or
  parameters is its own path, and joining an origin with an absolute path appends the
  path. The \<open>repr\<close> of a list or dict is not used by the examples.
\<close>

definition example_lib :: pylib where
  "example_lib =
     \<lparr>repr = (\<lambda>v. ''...''), urlparse_path = (\<lambda>u. Some u), urljoin = (\<lambda>b u. Some (b @ u))\<rparr>"



text \<open>
  Servers for the examples: one that answers every request with 403; one that answers
  every request with the same page of jobs, in the payload shape of the repository's
  tests; one that answers the \<open>n\<close>-th request with one job of id \<open>n\<close>.
\<close>

definition example_job :: "json \<Rightarrow> dict" where
  "example_job i =
     [(''jobInfoId'', i), (''jobTitle'', JStr ''Software Engineer''),
      (''companyName'', JStr ''Acme'')]"

definition job_with_id :: "json \<Rightarrow> json" where
  "job_with_id i = JDict (example_job i)"

definition job_page :: "json list \<Rightarrow> response" where
  "job_page js = \<lparr>status = 200, body = Inr (JDict [(''data'', JList js)])\<rparr>"

definition always_403 :: env where
  "always_403 = \<lparr>state_file_exists = True, api = (\<lambda>n url. \<lparr>status = 403, body = Inl JSONDecodeError\<rparr>)\<rparr>"

definition same_page :: "json list \<Rightarrow> env" where
  "same_page js = \<lparr>state_file_exists = True, api = (\<lambda>n url. job_page js)\<rparr>"

definition numbered_pages :: env where
  "numbered_pages =
     \<lparr>state_file_exists = True, api = (\<lambda>n url. job_page [job_with_id (JInt (int n))])\<rparr>"

text \<open>
  Three more: a server whose session expires after the first page, one whose second
  request is answered 401 and that answers every other request with the same page, one
  that answers 200 with a body that is not JSON, and one that answers 200 with a body
  in which an integer has more digits than \<open>int()\<close> converts.
\<close>

definition expiring_session :: env where
  "expiring_session =
     \<lparr>state_file_exists = True,
      api = (\<lambda>n url. if n = 0 then job_page [job_with_id (JInt 0)]
                       else \<lparr>status = 403, body = Inl JSONDecodeError\<rparr>)\<rparr>"

definition session_refreshed :: "json list \<Rightarrow> env" where
  "session_refreshed js =
     \<lparr>state_file_exists = True,
      api = (\<lambda>n url. if n = 1 then \<lparr>status = 401, body = Inl JSONDecodeError\<rparr>
                       else job_page js)\<rparr>"

definition not_json :: env where
  "not_json = \<lparr>state_file_exists = True, api = (\<lambda>n url. \<lparr>status = 200, body = Inl JSONDecodeError\<rparr>)\<rparr>"

definition oversized_integer :: env where
  "oversized_integer = \<lparr>state_file_exists = True, api = (\<lambda>n url. \<lparr>status = 200, body = Inl ValueError\<rparr>)\<rparr>"

section \<open>Properties of Record Discovery\<close>

lemma is_job_job_shape: "is_job d = job_shape (set (map fst d))"
  by (simp add: is_job_def job_shape_def Let_def)

lemma nonnull_keys_all:
  assumes "JNull \<notin> snd ` set d"
  shows "nonnull_keys d = set (map fst d)"
proof -
  have "get d k \<noteq> JNull" if "k \<in> fst ` set d" for k
  proof -
    from that obtain v where v: "map_of d k = Some v"
      by (cases "map_of d k") (auto simp: map_of_eq_None_iff)
    then have "(k, v) \<in> set d" by (rule map_of_SomeD)
    then have "v \<in> snd ` set d" by force
    with assms have "v \<noteq> JNull" by metis
    with v show ?thesis by (simp add: get_def)
  qed
  then show ?thesis by (auto simp: nonnull_keys_def)
qed

text \<open>
  C1 (as amended). The source classifies by the keys that are present, whatever their
  values: a mapping is a Job Candidate iff the set of all its keys is disjoint from the
  profile keys, meets the identifier keys, meets the title keys, and meets the company
  keys or the apply-URL keys. On a mapping none of whose values is null this is the
  classification over the keys with non-null values.
\<close>

theorem is_job_by_present_keys:
  "is_job d = job_shape (set (map fst d)) \<and>
   (JNull \<notin> snd ` set d \<longrightarrow> is_job d = spec_is_job d)"
  by (simp add: is_job_job_shape spec_is_job_def nonnull_keys_all)

theorem is_job_by_present_keys_witness:
  "is_job [(''jobInfoId'', JInt 123), (''jobTitle'', JStr ''SWE''),
           (''companyName'', JStr ''Acme''), (''applyUrl'', JStr ''https://apply.example'')] \<and>
   spec_is_job [(''jobInfoId'', JInt 123), (''jobTitle'', JStr ''SWE''),
           (''companyName'', JStr ''Acme''), (''applyUrl'', JStr ''https://apply.example'')]"
  using is_job_by_present_keys
    [of "[(''jobInfoId'', JInt 123), (''jobTitle'', JStr ''SWE''),
          (''companyName'', JStr ''Acme''), (''applyUrl'', JStr ''https://apply.example'')]"]
  by (simp add: is_job_def PROFILE_KEYS_def ID_KEYS_def TITLE_KEYS_def COMPANY_KEYS_def
      APPLY_KEYS_def)

text \<open>
  C1 as stated fails: a mapping whose identifier, title and company keys all carry null
  is classified as a Job Candidate by the source, and a job-shaped mapping with a null
  \<open>firstName\<close> is rejected, while over the keys with non-null values the first is
  rejected and the second accepted.
\<close>

theorem is_job_null_values_counterexample:
  "is_job [(''jobId'', JNull), (''title'', JNull), (''company'', JNull)] \<and>
   \<not> spec_is_job [(''jobId'', JNull), (''title'', JNull), (''company'', JNull)] \<and>
   \<not> is_job [(''firstName'', JNull), (''id'', JInt 7), (''title'', JStr ''SWE''),
              (''company'', JStr ''Acme'')] \<and>
   spec_is_job [(''firstName'', JNull), (''id'', JInt 7), (''title'', JStr ''SWE''),
              (''company'', JStr ''Acme'')]"
  by (simp add: is_job_def spec_is_job_def nonnull_keys_def get_def job_shape_def
      PROFILE_KEYS_def ID_KEYS_def TITLE_KEYS_def COMPANY_KEYS_def APPLY_KEYS_def)

lemma fold_appends:
  assumes "\<And>x acc. x \<in> set xs \<Longrightarrow> f x acc = acc @ g x"
  shows "fold f xs acc = acc @ concat (map g xs)"
  using assms by (induction xs arbitrary: acc) auto

lemma walk_appends: "walk x jobs = jobs @ filter is_job (subobjects x)"
proof (induction x jobs rule: walk.induct)
  case (1 d jobs)
  have "fold walk (map snd d) acc
        = acc @ concat (map (\<lambda>v. filter is_job (subobjects v)) (map snd d))" for acc
    by (rule fold_appends) (use 1 in auto)
  then show ?case
    by (simp add: filter_concat comp_def)
next
  case (2 xs jobs)
  have "fold walk xs acc = acc @ concat (map (\<lambda>v. filter is_job (subobjects v)) xs)"
    for acc
    by (rule fold_appends) (use 2 in auto)
  then show ?case
    by (simp add: filter_concat comp_def)
qed simp_all

lemma extract_job_dicts_filter:
  "extract_job_dicts obj = filter is_job (subobjects obj)"
  by (simp add: extract_job_dicts_def walk_appends)

lemma candidate_not_profile: "is_job x \<Longrightarrow> \<not> profile_shaped x"
  by (auto simp: is_job_def profile_shaped_def Let_def split: if_splits)

lemma subobjects_no_null:
  assumes "\<forall>x \<in> set (subobjects obj). JNull \<notin> snd ` set x"
  shows "filter is_job (subobjects obj) = filter spec_is_job (subobjects obj)"
proof (rule filter_cong [OF refl])
  fix x assume "x \<in> set (subobjects obj)"
  with assms have "JNull \<notin> snd ` set x" by (rule bspec)
  then show "is_job x = spec_is_job x"
    by (simp add: is_job_job_shape spec_is_job_def nonnull_keys_all)
qed

text \<open>
  C3 (as amended). Record Discovery returns exactly the mapping nodes of the tree that
  its classification accepts, the one over the keys that are present whatever their
  values, in depth-first pre-order; a matched mapping comes first and the walk still
  descends into its values, so nested job-shaped mappings follow their parent; and no
  returned object carries a profile key, wherever it is nested. On a tree in which no
  mapping has a null value, these are exactly the mapping nodes that satisfy the Job
  Candidate predicate over the keys with non-null values.
\<close>

theorem extract_job_dicts_preorder:
  "extract_job_dicts obj = filter is_job (subobjects obj) \<and>
   (\<forall>x \<in> set (extract_job_dicts obj). is_job x \<and> \<not> profile_shaped x) \<and>
   (is_job d \<longrightarrow>
      extract_job_dicts (JDict d) = d # concat (map extract_job_dicts (map snd d))) \<and>
   extract_job_dicts (JList xs) = concat (map extract_job_dicts xs) \<and>
   ((\<forall>x \<in> set (subobjects obj). JNull \<notin> snd ` set x) \<longrightarrow>
      extract_job_dicts obj = filter spec_is_job (subobjects obj))"
proof (intro conjI impI)
  show "extract_job_dicts obj = filter is_job (subobjects obj)"
    by (rule extract_job_dicts_filter)
  show "\<forall>x \<in> set (extract_job_dicts obj). is_job x \<and> \<not> profile_shaped x"
    by (auto simp: extract_job_dicts_filter candidate_not_profile)
  show "extract_job_dicts (JDict d) = d # concat (map extract_job_dicts (map snd d))"
    if "is_job d"
    using that by (simp add: extract_job_dicts_filter [abs_def] filter_concat comp_def)
  show "extract_job_dicts (JList xs) = concat (map extract_job_dicts xs)"
    by (simp add: extract_job_dicts_filter [abs_def] filter_concat comp_def)
  show "extract_job_dicts obj = filter spec_is_job (subobjects obj)"
    if "\<forall>x \<in> set (subobjects obj). JNull \<notin> snd ` set x"
    using subobjects_no_null [OF that] by (simp add: extract_job_dicts_filter)
qed

theorem extract_job_dicts_preorder_witness:
  "extract_job_dicts
     (JDict [(''data'', JList
        [JDict [(''firstName'', JStr ''Sam''), (''id'', JInt 1), (''title'', JStr ''HR''),
                (''company'', JStr ''Acme'')],
         JDict [(''jobInfoId'', JInt 123), (''jobTitle'', JStr ''SWE''),
                (''companyName'', JStr ''Acme''),
                (''socialConnections'', JList
                   [JDict [(''fullName'', JStr ''Sam R''), (''id'', JInt 2),
                           (''name'', JStr ''Sam''), (''url'', JStr ''/in/sam'')]]),
                (''similar'', JList
                   [JDict [(''id'', JInt 9), (''name'', JStr ''SRE''),
                           (''url'', JStr ''/jobs/9'')]])]])])
   = [[(''jobInfoId'', JInt 123), (''jobTitle'', JStr ''SWE''),
       (''companyName'', JStr ''Acme''),
       (''socialConnections'', JList
          [JDict [(''fullName'', JStr ''Sam R''), (''id'', JInt 2),
                  (''name'', JStr ''Sam''), (''url'', JStr ''/in/sam'')]]),
       (''similar'', JList
          [JDict [(''id'', JInt 9), (''name'', JStr ''SRE''),
                  (''url'', JStr ''/jobs/9'')]])],
      [(''id'', JInt 9), (''name'', JStr ''SRE''), (''url'', JStr ''/jobs/9'')]] \<and>
   filter spec_is_job (subobjects
     (JDict [(''data'', JList
        [JDict [(''firstName'', JStr ''Sam''), (''id'', JInt 1), (''title'', JStr ''HR''),
                (''company'', JStr ''Acme'')],
         JDict [(''jobInfoId'', JInt 123), (''jobTitle'', JStr ''SWE''),
                (''companyName'', JStr ''Acme''),
                (''socialConnections'', JList
                   [JDict [(''fullName'', JStr ''Sam R''), (''id'', JInt 2),
                           (''name'', JStr ''Sam''), (''url'', JStr ''/in/sam'')]]),
                (''similar'', JList
                   [JDict [(''id'', JInt 9), (''name'', JStr ''SRE''),
                           (''url'', JStr ''/jobs/9'')]])]])]))
   = [[(''jobInfoId'', JInt 123), (''jobTitle'', JStr ''SWE''),
       (''companyName'', JStr ''Acme''),
       (''socialConnections'', JList
          [JDict [(''fullName'', JStr ''Sam R''), (''id'', JInt 2),
                  (''name'', JStr ''Sam''), (''url'', JStr ''/in/sam'')]]),
       (''similar'', JList
          [JDict [(''id'', JInt 9), (''name'', JStr ''SRE''),
                  (''url'', JStr ''/jobs/9'')]])],
      [(''id'', JInt 9), (''name'', JStr ''SRE''), (''url'', JStr ''/jobs/9'')]] \<and>
   is_job [(''id'', JInt 9), (''name'', JStr ''SRE''), (''url'', JStr ''/jobs/9'')] \<and>
   extract_job_dicts
     (JDict [(''id'', JInt 9), (''name'', JStr ''SRE''), (''url'', JStr ''/jobs/9'')])
   = [[(''id'', JInt 9), (''name'', JStr ''SRE''), (''url'', JStr ''/jobs/9'')]]"
proof -
  let ?tree = "JDict [(''data'', JList
        [JDict [(''firstName'', JStr ''Sam''), (''id'', JInt 1), (''title'', JStr ''HR''),
                (''company'', JStr ''Acme'')],
         JDict [(''jobInfoId'', JInt 123), (''jobTitle'', JStr ''SWE''),
                (''companyName'', JStr ''Acme''),
                (''socialConnections'', JList
                   [JDict [(''fullName'', JStr ''Sam R''), (''id'', JInt 2),
                           (''name'', JStr ''Sam''), (''url'', JStr ''/in/sam'')]]),
                (''similar'', JList
                   [JDict [(''id'', JInt 9), (''name'', JStr ''SRE''),
                           (''url'', JStr ''/jobs/9'')]])]])]"
  let ?d = "[(''id'', JInt 9), (''name'', JStr ''SRE''), (''url'', JStr ''/jobs/9'')]"
  have n: "\<forall>x \<in> set (subobjects ?tree). JNull \<notin> snd ` set x" by simp
  have j: "is_job ?d"
    by (simp add: is_job_def PROFILE_KEYS_def ID_KEYS_def TITLE_KEYS_def COMPANY_KEYS_def
        APPLY_KEYS_def)
  have e: "extract_job_dicts ?tree =
      [[(''jobInfoId'', JInt 123), (''jobTitle'', JStr ''SWE''),
       (''companyName'', JStr ''Acme''),
       (''socialConnections'', JList
          [JDict [(''fullName'', JStr ''Sam R''), (''id'', JInt 2),
                  (''name'', JStr ''Sam''), (''url'', JStr ''/in/sam'')]]),
       (''similar'', JList
          [JDict [(''id'', JInt 9), (''name'', JStr ''SRE''),
                  (''url'', JStr ''/jobs/9'')]])],
      [(''id'', JInt 9), (''name'', JStr ''SRE''), (''url'', JStr ''/jobs/9'')]]"
    by (simp add: extract_job_dicts_def is_job_def PROFILE_KEYS_def ID_KEYS_def TITLE_KEYS_def
        COMPANY_KEYS_def APPLY_KEYS_def)
  from extract_job_dicts_preorder [of ?tree ?d "[]"] n j
  have "extract_job_dicts ?tree = filter spec_is_job (subobjects ?tree)"
    and "extract_job_dicts (JDict ?d) = ?d # concat (map extract_job_dicts (map snd ?d))"
    by blast+
  with e j show ?thesis
    by (simp add: extract_job_dicts_def)
qed

text \<open>
  C3 as stated fails where a value is null: a mapping whose identifier, title and company
  keys all carry null is returned, though it has none of them with a non-null value, and
  a job with a null \<open>firstName\<close> is left out, though over the keys with non-null values it
  is a Job Candidate.
\<close>

theorem extract_job_dicts_null_values_counterexample:
  "extract_job_dicts
     (JList [JDict [(''jobId'', JNull), (''title'', JNull), (''company'', JNull)],
             JDict [(''firstName'', JNull), (''id'', JInt 7), (''title'', JStr ''SWE''),
                    (''company'', JStr ''Acme'')]])
   = [[(''jobId'', JNull), (''title'', JNull), (''company'', JNull)]] \<and>
   filter spec_is_job (subobjects
     (JList [JDict [(''jobId'', JNull), (''title'', JNull), (''company'', JNull)],
             JDict [(''firstName'', JNull), (''id'', JInt 7), (''title'', JStr ''SWE''),
                    (''company'', JStr ''Acme'')]]))
   = [[(''firstName'', JNull), (''id'', JInt 7), (''title'', JStr ''SWE''),
       (''company'', JStr ''Acme'')]]"
  by (simp add: extract_job_dicts_def is_job_def spec_is_job_def nonnull_keys_def get_def
      job_shape_def PROFILE_KEYS_def ID_KEYS_def TITLE_KEYS_def COMPANY_KEYS_def APPLY_KEYS_def)

section \<open>Properties of the Field Normalizer\<close>

subsection \<open>Keywords\<close>

lemma set_dedup_first: "set (dedup_first xs) = set xs"
  by (induction xs rule: dedup_first.induct) auto

lemma distinct_dedup_first: "distinct (dedup_first xs)"
  by (induction xs rule: dedup_first.induct) (auto simp: set_dedup_first)

lemma strip_ends:
  "strip s = [] \<or> (\<not> py_isspace (hd (strip s)) \<and> \<not> py_isspace (last (strip s)))"
proof -
  let ?t = "dropWhile py_isspace s"
  let ?u = "dropWhile py_isspace (rev ?t)"
  show ?thesis
  proof (cases "?u = []")
    case True
    then show ?thesis by (simp add: strip_def)
  next
    case False
    then have h: "\<not> py_isspace (hd ?u)" by (rule hd_dropWhile)
    have t: "?t \<noteq> []"
    proof
      assume e: "?t = []"
      have "?u = []" by (simp only: e rev.simps dropWhile.simps)
      with False show False by contradiction
    qed
    then have "\<not> py_isspace (hd ?t)" by (rule hd_dropWhile)
    have "last ?u = last (rev ?t)"
      using False by (metis dropWhile_eq_Nil_conv last_appendR takeWhile_dropWhile_id)
    then have "last ?u = hd ?t" using t by (simp add: last_rev)
    with \<open>\<not> py_isspace (hd ?t)\<close> h False show ?thesis
      by (simp add: strip_def hd_rev last_rev)
  qed
qed

lemma strip_fixed:
  assumes "xs \<noteq> []" "\<not> py_isspace (hd xs)" "\<not> py_isspace (last xs)"
  shows "strip xs = xs"
proof -
  from assms have 1: "dropWhile py_isspace xs = xs"
    by (cases xs) auto
  from assms have "rev xs \<noteq> []" "\<not> py_isspace (hd (rev xs))"
    by (simp_all add: hd_rev)
  then have "dropWhile py_isspace (rev xs) = rev xs"
    by (cases "rev xs") auto
  with 1 show ?thesis by (simp add: strip_def)
qed

lemma strip_idem: "strip (strip s) = strip s"
proof (cases "strip s = []")
  case True
  have "strip [] = []" by (simp add: strip_def)
  with True show ?thesis by simp
next
  case False
  with strip_ends [of s] show ?thesis by (auto intro: strip_fixed)
qed

lemma removeAll_unseen:
  "removeAll x (filter (\<lambda>y. y \<noteq> [] \<and> y \<notin> S) xs) = filter (\<lambda>y. y \<noteq> [] \<and> y \<notin> insert x S) xs"
  by (induction xs) auto

text \<open>
  The loop, started with \<open>seen\<close> holding what is in \<open>out\<close> and with room left, returns
  \<open>out\<close> followed by the first new keywords. The cap is tested after an append, so the
  loop appends once even when the cap is zero or negative.
\<close>

lemma keywords_loop_take:
  assumes "int (length acc) < max 1 m"
  shows "keywords_loop m kws (set acc) acc =
         acc @ take (nat (max 1 m) - length acc)
                 (dedup_first (filter (\<lambda>y. y \<noteq> [] \<and> y \<notin> set acc) (map strip kws)))"
  using assms
proof (induction kws arbitrary: acc)
  case Nil
  then show ?case by simp
next
  case (Cons x kws)
  show ?case
  proof (cases "strip x = [] \<or> strip x \<in> set acc")
    case True
    with Cons show ?thesis by auto
  next
    case False
    show ?thesis
    proof (cases "int (length (acc @ [strip x])) \<ge> m")
      case True
      with Cons.prems have "nat (max 1 m) - length acc = Suc 0"
        by (auto simp: max_def split: if_splits)
      with True False show ?thesis by simp
    next
      case nf: False
      then have lt: "int (length (acc @ [strip x])) < max 1 m" by simp
      from nf have n: "Suc (length acc) < nat m" "nat (max 1 m) = nat m" by auto
      then have d: "nat m - length acc = Suc (nat m - Suc (length acc))" by simp
      from Cons.IH [OF lt] nf False n d show ?thesis
        by (simp add: removeAll_unseen Let_def conj_commute)
    qed
  qed
qed

lemma extract_keywords_take:
  "extract_keywords job m = take (nat (max 1 m)) (clean_keywords (keyword_sources job))"
  using keywords_loop_take [of "[]" m "keyword_sources job"]
  by (simp add: extract_keywords_def clean_keywords_def)

lemma clean_keywords_trimmed:
  assumes "k \<in> set (clean_keywords kws)"
  shows "k \<noteq> [] \<and> strip k = k"
proof -
  from assms obtain x where "k = strip x" "k \<noteq> []"
    by (auto simp: clean_keywords_def set_dedup_first)
  then show ?thesis by (simp add: strip_idem)
qed

text \<open>
  For a cap of at least one, the keyword list is the first \<open>m\<close> entries of the trimmed,
  non-empty candidates of the sources in their fixed order (core skills, skill matching
  scores, the two tag lists, the taxonomy list, the first taxonomy), each kept at its
  first occurrence only: its entries are trimmed and non-empty, no two are equal, it has
  at most \<open>m\<close> entries, and exactly \<open>m\<close> when at least \<open>m\<close> distinct keywords are
  available.
\<close>

lemma extract_keywords_capped:
  assumes "1 \<le> m"
  shows "extract_keywords job m = take (nat m) (clean_keywords (keyword_sources job)) \<and>
         distinct (extract_keywords job m) \<and>
         (\<forall>k \<in> set (extract_keywords job m). k \<noteq> [] \<and> strip k = k) \<and>
         int (length (extract_keywords job m)) \<le> m \<and>
         (m \<le> int (length (clean_keywords (keyword_sources job))) \<longrightarrow>
            int (length (extract_keywords job m)) = m)"
proof -
  from assms have e: "extract_keywords job m = take (nat m) (clean_keywords (keyword_sources job))"
    by (simp add: extract_keywords_take max_def)
  have "distinct (clean_keywords (keyword_sources job))"
    by (simp add: clean_keywords_def distinct_dedup_first)
  then have d: "distinct (extract_keywords job m)"
    by (simp add: e)
  have t: "\<forall>k \<in> set (extract_keywords job m). k \<noteq> [] \<and> strip k = k"
    unfolding e using clean_keywords_trimmed by (blast dest: in_set_takeD)
  from assms have l: "int (length (extract_keywords job m)) \<le> m"
    by (simp add: e)
  from assms have "m \<le> int (length (clean_keywords (keyword_sources job))) \<longrightarrow>
      int (length (extract_keywords job m)) = m"
    by (auto simp: e min_def)
  with e d t l show ?thesis by blast
qed

lemma extract_keywords_example:
  "extract_keywords
     [(''id'', JInt 1), (''title'', JStr ''SWE''), (''company'', JStr ''Acme''),
      (''jdCoreSkills'', JList [JDict [(''skill'', JStr ''Python'')],
         JDict [(''skill'', JStr '' Python '')], JDict [(''skill'', JStr ''SQL'')]]),
      (''skillMatchingScores'', JList [JDict [(''displayName'', JStr ''Python'')],
         JDict [(''featureName'', JStr ''AWS'')]]),
      (''recommendationTags'', JList [JStr ''New Grad'', JStr ''Remote'', JStr ''  '']),
      (''jobTags'', JList [JStr ''Remote'', JStr ''Hybrid'']),
      (''jobTaxonomyV3'', JList [JStr ''Software'', JStr ''Software'']),
      (''firstTaxonomy'', JStr ''Engineering'')] m
   = (if m \<le> 1 then [''Python'']
      else take (nat m) [''Python'', ''SQL'', ''AWS'', ''New Grad'', ''Remote'', ''Hybrid'',
                         ''Software'', ''Engineering''])"
  by (simp add: extract_keywords_take clean_keywords_def keyword_sources_def get_def py_or_def
      strip_def py_isspace_def max_def)

text \<open>
  C8 fails on the source at the cap 0, and at every cap below one: the final loop of
  \<open>extract_keywords\<close> tests \<open>len(out) >= max_kw\<close> only after it has appended, so a Job
  Candidate with a keyword gets a list of one keyword, where the claim allows no more
  than \<open>m\<close>. The cap of the pagination driver, tested at the head of its loop, gives no
  record at 0.
\<close>

theorem extract_keywords_exceeds_cap_zero:
  "is_job [(''id'', JInt 1), (''title'', JStr ''SWE''), (''company'', JStr ''Acme''),
           (''jdCoreSkills'', JList [JDict [(''skill'', JStr ''Python'')]])] \<and>
   extract_keywords
     [(''id'', JInt 1), (''title'', JStr ''SWE''), (''company'', JStr ''Acme''),
      (''jdCoreSkills'', JList [JDict [(''skill'', JStr ''Python'')]])] 0
   = [''Python''] \<and>
   \<not> int (length (extract_keywords
     [(''id'', JInt 1), (''title'', JStr ''SWE''), (''company'', JStr ''Acme''),
      (''jdCoreSkills'', JList [JDict [(''skill'', JStr ''Python'')]])] 0)) \<le> 0 \<and>
   fst (fetch_recommendations_via_api example_lib (same_page [job_with_id (JStr ''a'')]) 0 0 10)
   = Inr []"
  by (simp add: is_job_def PROFILE_KEYS_def ID_KEYS_def TITLE_KEYS_def COMPANY_KEYS_def
      APPLY_KEYS_def extract_keywords_def keyword_sources_def get_def strip_def py_isspace_def
      fetch_recommendations_via_api_def loop.simps same_page_def)

subsection \<open>Company\<close>














subsection \<open>Recruiters\<close>

text \<open>
  C2 fails on the source: on a Job Candidate one of whose social connections has a number
  as job title, \<open>extract_linkedin_recruiters\<close> raises \<open>AttributeError\<close> where the claim
  has it return.
\<close>

theorem extract_linkedin_recruiters_raises:
  "is_job [(''id'', JInt 1), (''title'', JStr ''SWE''), (''company'', JStr ''Acme''),
           (''socialConnections'', JList [JDict [(''jobTitle'', JInt 5)]])] \<and>
   extract_linkedin_recruiters L
     [(''id'', JInt 1), (''title'', JStr ''SWE''), (''company'', JStr ''Acme''),
      (''socialConnections'', JList [JDict [(''jobTitle'', JInt 5)]])]
   = Inl AttributeError"
  by (simp add: is_job_def PROFILE_KEYS_def ID_KEYS_def TITLE_KEYS_def COMPANY_KEYS_def
      APPLY_KEYS_def extract_linkedin_recruiters_def get_def py_or_def)

section \<open>Properties of the Pagination Driver\<close>

subsection \<open>One request\<close>

lemma get_page_once:
  assumes "status (api E (calls st) url) \<noteq> 401" "status (api E (calls st) url) \<noteq> 403"
  shows "get_page E st url =
           (api E (calls st) url,
            st\<lparr>calls := Suc (calls st), trace := trace st @ [Get url]\<rparr>)"
  using assms by (simp add: get_page_def Let_def)

lemma get_page_retry:
  assumes "status (api E (calls st) url) = 401 \<or> status (api E (calls st) url) = 403"
  shows "get_page E st url =
           (api E (Suc (calls st)) url,
            st\<lparr>calls := Suc (Suc (calls st)),
               trace := trace st @ [Get url, Goto RECS_PAGE, Get url]\<rparr>)"
  using assms by (auto simp: get_page_def Let_def)

lemma iteration_auth_failure:
  assumes "get_page E st
             (request_url (refresh st) sort_condition (position st)
                (min page_size (max_items - int (length (out st))))) = (resp, st1)"
    and "status resp = 401 \<or> status resp = 403"
  shows "iteration L E max_items sort_condition page_size st =
           Raise (PermissionError
                    (auth_message
                       (request_url (refresh st) sort_condition (position st)
                          (min page_size (max_items - int (length (out st)))))
                       (status resp)))
                 (st1\<lparr>trace := trace st1 @ [CloseBrowser]\<rparr>)"
  using assms by (auto simp: iteration_def Let_def)

declare loop.simps [simp del]

lemma loop_raise:
  assumes "int (length (out st)) < max_items"
    and "iteration L E max_items sort_condition page_size st = Raise e st'"
  shows "loop L E max_items sort_condition page_size st = (Some e, st')"
  using assms by (subst loop.simps) simp

lemma loop_break:
  assumes "int (length (out st)) < max_items"
    and "iteration L E max_items sort_condition page_size st = Break st'"
  shows "loop L E max_items sort_condition page_size st = (None, st')"
  using assms by (subst loop.simps) simp

lemma loop_continue:
  assumes "int (length (out st)) < max_items"
    and "iteration L E max_items sort_condition page_size st = Continue st'"
  shows "loop L E max_items sort_condition page_size st =
         loop L E max_items sort_condition page_size st'"
  using assms by (subst loop.simps) simp

lemma loop_done:
  assumes "\<not> int (length (out st)) < max_items"
  shows "loop L E max_items sort_condition page_size st = (None, st)"
  using assms by (subst loop.simps) simp

text \<open>
  C4. When a page request is answered with 401 or 403, the driver navigates once to the
  recommendations page and repeats the request for the same URL once, and nothing else.
  When the repeated request is answered with 401 or 403 again, the browser is closed and
  the run ends there by raising \<open>PermissionError\<close>, whose message holds the URL and the
  status of the repeated request.
\<close>

theorem auth_failure_retried_once:
  assumes "int (length (out st)) < max_items"
    and "url = request_url (refresh st) sort_condition (position st)
                 (min page_size (max_items - int (length (out st))))"
    and "status (api E (calls st) url) = 401 \<or> status (api E (calls st) url) = 403"
  shows "get_page E st url =
           (api E (Suc (calls st)) url,
            st\<lparr>calls := Suc (Suc (calls st)),
               trace := trace st @ [Get url, Goto RECS_PAGE, Get url]\<rparr>) \<and>
         (status (api E (Suc (calls st)) url) = 401 \<or>
          status (api E (Suc (calls st)) url) = 403 \<longrightarrow>
            loop L E max_items sort_condition page_size st =
              (Some (PermissionError
                 (''Auth failed calling '' @ url @ '' (HTTP '' @
                  str_int (status (api E (Suc (calls st)) url)) @
                  ''). Run with --login again.'')),
               st\<lparr>calls := Suc (Suc (calls st)),
                  trace := trace st @ [Get url, Goto RECS_PAGE, Get url, CloseBrowser]\<rparr>))"
proof (intro conjI impI)
  show g: "get_page E st url =
           (api E (Suc (calls st)) url,
            st\<lparr>calls := Suc (Suc (calls st)),
               trace := trace st @ [Get url, Goto RECS_PAGE, Get url]\<rparr>)"
    using assms(3) by (rule get_page_retry)
  assume again: "status (api E (Suc (calls st)) url) = 401 \<or>
                 status (api E (Suc (calls st)) url) = 403"
  from g again have "iteration L E max_items sort_condition page_size st =
      Raise (PermissionError (auth_message url (status (api E (Suc (calls st)) url))))
        (st\<lparr>calls := Suc (Suc (calls st)),
            trace := trace st @ [Get url, Goto RECS_PAGE, Get url]\<rparr>
          \<lparr>trace := trace (st\<lparr>calls := Suc (Suc (calls st)),
            trace := trace st @ [Get url, Goto RECS_PAGE, Get url]\<rparr>) @ [CloseBrowser]\<rparr>)"
    unfolding assms(2) by (rule iteration_auth_failure)
  with assms(1) show "loop L E max_items sort_condition page_size st =
              (Some (PermissionError
                 (''Auth failed calling '' @ url @ '' (HTTP '' @
                  str_int (status (api E (Suc (calls st)) url)) @
                  ''). Run with --login again.'')),
               st\<lparr>calls := Suc (Suc (calls st)),
                  trace := trace st @ [Get url, Goto RECS_PAGE, Get url, CloseBrowser]\<rparr>)"
    by (simp add: loop_raise auth_message_def)
qed

theorem auth_failure_retried_once_witness:
  "fetch_recommendations_via_api example_lib always_403 1 0 1 =
     (Inl (PermissionError
        (''Auth failed calling https://jobright.ai/swan/recommend/list/jobs'' @
         ''?refresh=true&sortCondition=0&position=0&count=1 (HTTP 403). '' @
         ''Run with --login again.'')),
      [ReadState, Goto ''https://jobright.ai/jobs/recommend'',
       Get ''https://jobright.ai/swan/recommend/list/jobs?refresh=true&sortCondition=0&position=0&count=1'',
       Goto ''https://jobright.ai/jobs/recommend'',
       Get ''https://jobright.ai/swan/recommend/list/jobs?refresh=true&sortCondition=0&position=0&count=1'',
       CloseBrowser])"
proof -
  let ?st = "\<lparr>out = [], seen_ids = {}, position = 0, refresh = ''true'', calls = 0,
               trace = [ReadState, Goto RECS_PAGE]\<rparr>"
  let ?url = "''https://jobright.ai/swan/recommend/list/jobs?refresh=true&sortCondition=0&position=0&count=1''"
  have 1: "int (length (out ?st)) < 1" by simp
  have 2: "?url = request_url (refresh ?st) 0 (position ?st) (min 1 (1 - int (length (out ?st))))"
    by (simp add: request_url_def RECS_API_def BASE_def str_int_def)
  have 3: "status (api always_403 (calls ?st) ?url) = 401 \<or>
           status (api always_403 (calls ?st) ?url) = 403"
    by (simp add: always_403_def)
  from auth_failure_retried_once [OF 1 2 3, of example_lib] show ?thesis
    by (simp add: fetch_recommendations_via_api_def always_403_def RECS_PAGE_def BASE_def
        str_int_def)
qed

subsection \<open>De-duplication\<close>

text \<open>Evaluating a run of the driver on an example server.\<close>

lemmas run_defs =
  fetch_recommendations_via_api_def loop.simps iteration_def get_page_def request_url_def
  page_loop.simps probe_id_def normalize_job_def norm_url_def extract_company_def
  extract_linkedin_recruiters_def extract_keywords_def keyword_sources_def
  extract_job_dicts_def is_job_def PROFILE_KEYS_def ID_KEYS_def TITLE_KEYS_def
  COMPANY_KEYS_def APPLY_KEYS_def get_def strip_def py_isspace_def str_int_def
  RECS_API_def RECS_PAGE_def BASE_def Let_def
  same_page_def job_page_def job_with_id_def example_job_def numbered_pages_def
  always_403_def example_lib_def expiring_session_def not_json_def session_refreshed_def
  first_state_def oversized_integer_def

lemma normalize_job_jobId: "normalize_job L j i = Inr r \<Longrightarrow> jobId r = i"
  unfolding normalize_job_def Let_def
  by (auto simp del: pick.simps split: sum.splits if_splits)

lemma probe_id_None:
  "probe_id L j = None \<longleftrightarrow>
     (\<forall>k \<in> set [''jobInfoId'', ''jobId'', ''id'', ''job_id'', ''jobID'']. get j k = JNull)"
proof -
  have "pick j ks = JNull \<longleftrightarrow> (\<forall>k \<in> set ks. get j k = JNull)" for ks
    by (induction ks) (auto simp: get_def split: option.splits)
  then show ?thesis
    unfolding probe_id_def Let_def by (simp del: pick.simps)
qed

lemma idless_page:
  assumes "\<forall>j \<in> set page. probe_id L j = None"
    and "map (\<lambda>j. normalize_job L j None) page = map Inr rs"
    and "int (length acc) + int (length page) < max_items"
  shows "page_loop L max_items page acc seen n = Inr (acc @ rs, seen, n + length page)"
  using assms
proof (induction page arbitrary: acc n rs)
  case Nil
  then show ?case by simp
next
  case (Cons j page)
  from Cons.prems(2) obtain r rs' where rs: "rs = r # rs'"
    and r: "normalize_job L j None = Inr r"
    and rest: "map (\<lambda>j. normalize_job L j None) page = map Inr rs'"
    by (cases rs) auto
  from Cons.prems(1) have p: "probe_id L j = None" by simp
  then have ns: "\<not> seen_before (probe_id L j) seen" by simp
  from p r have "normalize_job L j (probe_id L j) = Inr r" by simp
  from page_loop_append [OF ns this, of max_items page acc n] p Cons.prems(3)
  have "page_loop L max_items (j # page) acc seen n =
          page_loop L max_items page (acc @ [r]) seen (n + 1)"
    by simp
  also from Cons.prems have "\<dots> = Inr ((acc @ [r]) @ rs', seen, (n + 1) + length page)"
    by (intro Cons.IH rest) simp_all
  finally show ?case by (simp add: rs)
qed

text \<open>
  C10 (as amended). A record whose probed id is absent (no identifier alias has a
  non-null value) is never skipped as a duplicate. When the scan of a page comes to it
  and its fields are normalized without an exception, it is appended to the output with
  an absent id, the seen-ID set stays as it is, and the tally of the page goes up by one;
  the scan of the page ends there when the output has reached \<open>max_items\<close>, and goes on
  with the rest of the page otherwise. So the same id-less record on successive pages
  appears once per page, as long as the output is below the maximum (here two pages of
  one record each, up to a maximum of two); and a page of id-less records that does not
  fill the output is appended whole, equal records included.
\<close>

theorem idless_record_appended:
  assumes "probe_id L j = None"
  shows "(\<forall>k \<in> set [''jobInfoId'', ''jobId'', ''id'', ''job_id'', ''jobID'']. get j k = JNull) \<and>
         \<not> seen_before (probe_id L j) seen \<and>
         (normalize_job L j None = Inr r \<longrightarrow>
            jobId r = None \<and>
            page_loop L max_items (j # js) acc seen n =
              (if int (length (acc @ [r])) \<ge> max_items then Inr (acc @ [r], seen, n + 1)
               else page_loop L max_items js (acc @ [r]) seen (n + 1))) \<and>
         ((\<forall>j' \<in> set page. probe_id L j' = None) \<and>
          map (\<lambda>j'. normalize_job L j' None) page = map Inr rs \<and>
          int (length acc) + int (length page) < max_items \<longrightarrow>
            page_loop L max_items page acc seen n = Inr (acc @ rs, seen, n + length page))"
proof (intro conjI impI)
  assume "(\<forall>j' \<in> set page. probe_id L j' = None) \<and>
          map (\<lambda>j'. normalize_job L j' None) page = map Inr rs \<and>
          int (length acc) + int (length page) < max_items"
  then show "page_loop L max_items page acc seen n = Inr (acc @ rs, seen, n + length page)"
    by (intro idless_page) simp_all
next
  from assms show "\<forall>k \<in> set [''jobInfoId'', ''jobId'', ''id'', ''job_id'', ''jobID''].
      get j k = JNull"
    by (simp only: probe_id_None)
  from assms show ns: "\<not> seen_before (probe_id L j) seen" by simp
  assume r: "normalize_job L j None = Inr r"
  then show "jobId r = None" by (rule normalize_job_jobId)
  from assms r have "normalize_job L j (probe_id L j) = Inr r" by simp
  from page_loop_append [OF ns this] assms
  show "page_loop L max_items (j # js) acc seen n =
              (if int (length (acc @ [r])) \<ge> max_items then Inr (acc @ [r], seen, n + 1)
               else page_loop L max_items js (acc @ [r]) seen (n + 1))"
    by simp
qed

theorem idless_record_appended_witness:
  "(\<exists>r. page_loop example_lib 5 [example_job JNull] [] {} 0 = Inr ([r], {}, 1) \<and>
        page_loop example_lib 5 [example_job JNull, example_job JNull] [] {} 0
          = Inr ([r, r], {}, 2) \<and>
        jobId r = None \<and> raw r = example_job JNull) \<and>
   (\<exists>recs tr.
      fetch_recommendations_via_api example_lib (same_page [job_with_id JNull]) 2 0 1
        = (Inr recs, tr) \<and>
      map jobId recs = [None, None] \<and> map raw recs = [example_job JNull, example_job JNull])"
proof -
  have p: "probe_id example_lib (example_job JNull) = None"
    by (simp add: probe_id_def example_job_def)
  obtain r where r: "normalize_job example_lib (example_job JNull) None = Inr r"
    and w: "raw r = example_job JNull"
    by (simp add: run_defs)
  from idless_record_appended [OF p, where seen = "{}" and r = r and max_items = 5
      and js = "[]" and acc = "[]" and n = 0
      and page = "[example_job JNull, example_job JNull]" and rs = "[r, r]"] r p
  have "page_loop example_lib 5 [example_job JNull] [] {} 0 = Inr ([r], {}, 1)"
    and "page_loop example_lib 5 [example_job JNull, example_job JNull] [] {} 0
          = Inr ([r, r], {}, 2)"
    and "jobId r = None"
    by simp_all
  with w have 1: "\<exists>r. page_loop example_lib 5 [example_job JNull] [] {} 0 = Inr ([r], {}, 1) \<and>
        page_loop example_lib 5 [example_job JNull, example_job JNull] [] {} 0
          = Inr ([r, r], {}, 2) \<and>
        jobId r = None \<and> raw r = example_job JNull"
    by blast
  have 2: "\<exists>recs tr.
      fetch_recommendations_via_api example_lib (same_page [job_with_id JNull]) 2 0 1
        = (Inr recs, tr) \<and>
      map jobId recs = [None, None] \<and> map raw recs = [example_job JNull, example_job JNull]"
    by (simp add: run_defs)
  from 1 2 show ?thesis by blast
qed

text \<open>
  C10 as stated fails in two places. An id-less Job Candidate one of whose social
  connections has a number as job title is not appended: its normalization raises, and
  so does the run. And of two id-less records in a page, the second is not appended when
  the first has filled the output up to the maximum.
\<close>

theorem idless_record_not_appended_counterexample:
  "is_job [(''id'', JNull), (''title'', JStr ''SWE''), (''company'', JStr ''Acme''),
           (''socialConnections'', JList [JDict [(''jobTitle'', JInt 5)]])] \<and>
   probe_id example_lib
     [(''id'', JNull), (''title'', JStr ''SWE''), (''company'', JStr ''Acme''),
      (''socialConnections'', JList [JDict [(''jobTitle'', JInt 5)]])] = None \<and>
   page_loop example_lib 5
     [[(''id'', JNull), (''title'', JStr ''SWE''), (''company'', JStr ''Acme''),
       (''socialConnections'', JList [JDict [(''jobTitle'', JInt 5)]])]] [] {} 0
   = Inl AttributeError \<and>
   fst (fetch_recommendations_via_api example_lib
          (same_page [JDict [(''id'', JNull), (''title'', JStr ''SWE''),
             (''company'', JStr ''Acme''),
             (''socialConnections'', JList [JDict [(''jobTitle'', JInt 5)]])]]) 5 0 10)
   = Inl AttributeError \<and>
   probe_id example_lib (example_job JNull) = None \<and>
   (\<exists>recs tr.
      fetch_recommendations_via_api example_lib
        (same_page [job_with_id JNull, job_with_id JNull]) 1 0 10 = (Inr recs, tr) \<and>
      map raw recs = [example_job JNull])"
  by (simp add: run_defs py_or_def)

text \<open>
  The ids of the output that take part in de-duplication: those that are present and not
  the empty text. Every such id of the output is in the seen-ID set, and no two records
  carry the same one; a page keeps this true.
\<close>

lemma ids_of_append: "ids_of (xs @ ys) = ids_of xs @ ids_of ys"
  by (simp add: ids_of_def)

lemma ids_of_single:
  "ids_of [r] = (case jobId r of Some i \<Rightarrow> if i \<noteq> [] then [i] else [] | None \<Rightarrow> [])"
  by (simp add: ids_of_def)

lemma deduplicated_append:
  assumes "deduplicated acc seen" "\<not> seen_before i seen" "jobId r = i"
  shows "deduplicated (acc @ [r]) (remember i seen)"
proof (cases i)
  case None
  with assms show ?thesis
    by (simp add: deduplicated_def ids_of_append ids_of_single)
next
  case (Some a)
  with assms show ?thesis
    by (auto simp: deduplicated_def ids_of_append ids_of_single)
qed

lemma page_loop_deduplicated:
  assumes "page_loop L max_items js acc seen n = Inr (acc', seen', n')"
    and "deduplicated acc seen"
  shows "deduplicated acc' seen'"
  using assms
proof (induction js arbitrary: acc seen n)
  case Nil
  then show ?case by simp
next
  case (Cons j js)
  show ?case
  proof (cases "seen_before (probe_id L j) seen")
    case True
    with Cons.prems(1) have "page_loop L max_items js acc seen n = Inr (acc', seen', n')"
      by (simp add: page_loop_skip)
    from Cons.IH [OF this Cons.prems(2)] show ?thesis .
  next
    case False
    show ?thesis
    proof (cases "normalize_job L j (probe_id L j)")
      case (Inl e)
      with False Cons.prems(1) show ?thesis by (simp add: page_loop_raise)
    next
      case (Inr r)
      then have "jobId r = probe_id L j" by (rule normalize_job_jobId)
      with Cons.prems(2) False
      have d: "deduplicated (acc @ [r]) (remember (probe_id L j) seen)"
        by (rule deduplicated_append)
      show ?thesis
      proof (cases "int (length (acc @ [r])) \<ge> max_items")
        case True
        with False Inr Cons.prems(1) d show ?thesis by (auto simp: page_loop_append)
      next
        case nf: False
        with False Inr Cons.prems(1)
        have "page_loop L max_items js (acc @ [r]) (remember (probe_id L j) seen) (n + 1)
              = Inr (acc', seen', n')"
          by (simp add: page_loop_append)
        from Cons.IH [OF this d] show ?thesis .
      qed
    qed
  qed
qed

subsection \<open>One turn of the loop, by cases\<close>

lemma get_page_cases:
  obtains (once) "status (api E (calls st) url) \<noteq> 401" "status (api E (calls st) url) \<noteq> 403"
      "get_page E st url =
         (api E (calls st) url, st\<lparr>calls := Suc (calls st), trace := trace st @ [Get url]\<rparr>)"
  | (retry) "status (api E (calls st) url) = 401 \<or> status (api E (calls st) url) = 403"
      "get_page E st url =
         (api E (Suc (calls st)) url,
          st\<lparr>calls := Suc (Suc (calls st)),
             trace := trace st @ [Get url, Goto RECS_PAGE, Get url]\<rparr>)"
  using get_page_once [of E st url] get_page_retry [of E st url] by blast

lemma iteration_cases:
  fixes L E max_items sort_condition page_size st
  defines "url \<equiv> request_url (refresh st) sort_condition (position st)
                   (min page_size (max_items - int (length (out st))))"
  assumes g: "get_page E st url = (resp, st1)"
  obtains
    (auth) "status resp = 401 \<or> status resp = 403"
      "iteration L E max_items sort_condition page_size st =
         Raise (PermissionError (auth_message url (status resp)))
           (st1\<lparr>trace := trace st1 @ [CloseBrowser]\<rparr>)"
  | (status) "status resp \<noteq> 200"
      "iteration L E max_items sort_condition page_size st = Break st1"
  | (decode) e where "status resp = 200" "body resp = Inl e"
      "iteration L E max_items sort_condition page_size st = Raise e st1"
  | (empty) data where "status resp = 200" "body resp = Inr data" "extract_job_dicts data = []"
      "iteration L E max_items sort_condition page_size st =
         Break (st1\<lparr>trace := trace st1 @ [DumpPayload data]\<rparr>)"
  | (raise) data e where "status resp = 200" "body resp = Inr data"
      "page_loop L max_items (extract_job_dicts data) (out st) (seen_ids st) 0 = Inl e"
      "iteration L E max_items sort_condition page_size st = Raise e st1"
  | (stall) data acc seen where "status resp = 200" "body resp = Inr data"
      "extract_job_dicts data \<noteq> []"
      "page_loop L max_items (extract_job_dicts data) (out st) (seen_ids st) 0
         = Inr (acc, seen, 0)"
      "iteration L E max_items sort_condition page_size st =
         Break (st1\<lparr>out := acc, seen_ids := seen\<rparr>)"
  | (more) data acc seen n where "status resp = 200" "body resp = Inr data"
      "page_loop L max_items (extract_job_dicts data) (out st) (seen_ids st) 0
         = Inr (acc, seen, n)" "n \<noteq> 0"
      "iteration L E max_items sort_condition page_size st =
         Continue (st1\<lparr>out := acc, seen_ids := seen,
                      position := position st +
                        min page_size (max_items - int (length (out st))),
                      refresh := ''false''\<rparr>)"
proof -
  from g have o: "out st1 = out st" "seen_ids st1 = seen_ids st" "position st1 = position st"
    by (auto simp: get_page_def Let_def split: if_splits)
  have i: "iteration L E max_items sort_condition page_size st =
     (if status resp = 401 \<or> status resp = 403 then
        Raise (PermissionError (auth_message url (status resp)))
          (st1\<lparr>trace := trace st1 @ [CloseBrowser]\<rparr>)
      else if status resp \<noteq> 200 then Break st1
      else
        case body resp of
          Inl e \<Rightarrow> Raise e st1
        | Inr data \<Rightarrow>
            if extract_job_dicts data = [] then Break (st1\<lparr>trace := trace st1 @ [DumpPayload data]\<rparr>)
            else
              case page_loop L max_items (extract_job_dicts data) (out st) (seen_ids st) 0 of
                Inl e \<Rightarrow> Raise e st1
              | Inr (acc, seen, n) \<Rightarrow>
                  if n = 0 then Break (st1\<lparr>out := acc, seen_ids := seen\<rparr>)
                  else Continue (st1\<lparr>out := acc, seen_ids := seen,
                      position := position st +
                        min page_size (max_items - int (length (out st))),
                      refresh := ''false''\<rparr>))"
    using g o unfolding iteration_def url_def Let_def
    by (simp split: prod.splits sum.splits)
  show thesis
  proof (cases "status resp = 401 \<or> status resp = 403")
    case True
    with i show ?thesis by (intro auth) simp_all
  next
    case na: False
    show ?thesis
    proof (cases "status resp = 200")
      case False
      with na i show ?thesis by (intro status) simp_all
    next
      case ok: True
      show ?thesis
      proof (cases "body resp")
        case (Inl e)
        with na ok i show ?thesis by (intro decode [of e]) simp_all
      next
        case b: (Inr data)
        show ?thesis
        proof (cases "extract_job_dicts data = []")
          case True
          with na ok b i show ?thesis by (intro empty [of data]) simp_all
        next
          case ne: False
          show ?thesis
          proof (cases "page_loop L max_items (extract_job_dicts data) (out st) (seen_ids st) 0")
            case (Inl e)
            with na ok b ne i show ?thesis by (intro raise [of data e]) simp_all
          next
            case (Inr t)
            obtain acc seen n where t: "t = (acc, seen, n)" by (cases t)
            show ?thesis
            proof (cases "n = 0")
              case True
              with na ok b ne Inr t i show ?thesis
                by (intro stall [of data acc seen]) simp_all
            next
              case False
              with na ok b ne Inr t i show ?thesis
                by (intro more [of data acc seen n]) simp_all
            qed
          qed
        qed
      qed
    qed
  qed
qed

subsection \<open>Invariants of the loop\<close>

lemma loop_invariant:
  assumes "I st"
    and cont: "\<And>s s'. I s \<Longrightarrow> int (length (out s)) < max_items \<Longrightarrow>
           iteration L E max_items sort_condition page_size s = Continue s' \<Longrightarrow> I s'"
    and brk: "\<And>s s'. I s \<Longrightarrow> int (length (out s)) < max_items \<Longrightarrow>
           iteration L E max_items sort_condition page_size s = Break s' \<Longrightarrow> Q None s'"
    and rais: "\<And>s s' e. I s \<Longrightarrow> int (length (out s)) < max_items \<Longrightarrow>
           iteration L E max_items sort_condition page_size s = Raise e s' \<Longrightarrow> Q (Some e) s'"
    and fin: "\<And>s. I s \<Longrightarrow> \<not> int (length (out s)) < max_items \<Longrightarrow> Q None s"
  shows "Q (fst (loop L E max_items sort_condition page_size st))
           (snd (loop L E max_items sort_condition page_size st))"
  using assms
proof (induction L E max_items sort_condition page_size st rule: loop.induct)
  case (1 L E max_items sort_condition page_size st)
  note I = "1.prems"(1) and cont = "1.prems"(2) and brk = "1.prems"(3)
    and rais = "1.prems"(4) and fin = "1.prems"(5)
  show ?case
  proof (cases "int (length (out st)) < max_items")
    case False
    from fin [OF I False] False show ?thesis by (simp add: loop_done)
  next
    case True
    show ?thesis
    proof (cases "iteration L E max_items sort_condition page_size st")
      case (Continue s')
      from cont [OF I True Continue] have "I s'" .
      from "1.IH" [OF True Continue this cont brk rais fin] True Continue show ?thesis
        by (simp add: loop_continue)
    next
      case (Break s')
      from brk [OF I True Break] have "Q None s'" .
      with True Break show ?thesis by (simp add: loop_break)
    next
      case (Raise e s')
      from rais [OF I True Raise] have "Q (Some e) s'" .
      with True Raise show ?thesis by (simp add: loop_raise)
    qed
  qed
qed

lemma get_page_frame:
  assumes "get_page E st url = (resp, st1)"
  shows "out st1 = out st" "seen_ids st1 = seen_ids st" "position st1 = position st"
    "refresh st1 = refresh st"
  using assms by (auto simp: get_page_def Let_def split: if_splits)

lemma get_page_trace:
  assumes "get_page E st url = (resp, st1)"
  shows "\<exists>evs. trace st1 = trace st @ evs \<and> set evs \<subseteq> {Get url, Goto RECS_PAGE} \<and>
           calls st1 = calls st + length (filter is_Get evs) \<and>
           1 \<le> length (filter is_Get evs) \<and> length (filter is_Get evs) \<le> 2"
  using assms by (cases rule: get_page_cases [of E st url]) auto

lemma iteration_deduplicated:
  assumes "deduplicated (out s) (seen_ids s)"
    and "iteration L E max_items sort_condition page_size s = Continue s' \<or>
         iteration L E max_items sort_condition page_size s = Break s'"
  shows "deduplicated (out s') (seen_ids s')"
proof -
  obtain resp s1 where g: "get_page E s
      (request_url (refresh s) sort_condition (position s)
         (min page_size (max_items - int (length (out s))))) = (resp, s1)"
    by (metis surj_pair)
  note f = get_page_frame [OF g]
  from g show ?thesis
  proof (cases rule: iteration_cases [where L = L])
    case auth
    with assms(2) show ?thesis by simp
  next
    case status
    with assms f show ?thesis by auto
  next
    case decode
    with assms(2) show ?thesis by simp
  next
    case (empty data)
    with assms f show ?thesis by auto
  next
    case (raise data e)
    with assms(2) show ?thesis by simp
  next
    case (stall data acc seen)
    from page_loop_deduplicated [OF stall(4) assms(1)] stall(5) assms(2) show ?thesis by auto
  next
    case (more data acc seen n)
    from page_loop_deduplicated [OF more(3) assms(1)] more(5) assms(2) show ?thesis by auto
  qed
qed

lemma loop_deduplicated:
  assumes "deduplicated (out st) (seen_ids st)"
    and "loop L E max_items sort_condition page_size st = (None, st')"
  shows "deduplicated (out st') (seen_ids st')"
proof -
  have "(case fst (loop L E max_items sort_condition page_size st) of
           None \<Rightarrow> deduplicated (out (snd (loop L E max_items sort_condition page_size st)))
                     (seen_ids (snd (loop L E max_items sort_condition page_size st)))
         | Some e \<Rightarrow> True)"
    by (rule loop_invariant
          [where I = "\<lambda>s. deduplicated (out s) (seen_ids s)"
             and Q = "\<lambda>r s. case r of None \<Rightarrow> deduplicated (out s) (seen_ids s) | Some e \<Rightarrow> True"])
       (use assms(1) in \<open>auto intro: iteration_deduplicated\<close>)
  with assms(2) show ?thesis by simp
qed

text \<open>
  C6 (as amended). The returned list has no two records with the same present, non-empty
  jobId, whatever pages the server returns: a record whose non-empty id text is in the
  seen-ID set is skipped, and the non-empty id of every appended record is added to the
  set.
\<close>

theorem output_ids_distinct:
  "(fetch_recommendations_via_api L E max_items sort_condition page_size = (Inr recs, tr) \<longrightarrow>
      distinct (ids_of recs)) \<and>
   (seen_before (probe_id L j) seen \<longrightarrow>
      page_loop L max_items (j # js) acc seen n = page_loop L max_items js acc seen n) \<and>
   (\<not> seen_before (probe_id L j) seen \<and> normalize_job L j (probe_id L j) = Inr r \<longrightarrow>
      jobId r = probe_id L j \<and>
      page_loop L max_items (j # js) acc seen n =
        (if int (length (acc @ [r])) \<ge> max_items
         then Inr (acc @ [r], remember (probe_id L j) seen, n + 1)
         else page_loop L max_items js (acc @ [r]) (remember (probe_id L j) seen) (n + 1))) \<and>
   (i \<noteq> [] \<longrightarrow> i \<in> remember (Some i) seen)"
proof -
  have "distinct (ids_of recs)"
    if run: "fetch_recommendations_via_api L E max_items sort_condition page_size = (Inr recs, tr)"
  proof -
    let ?st = "\<lparr>out = [], seen_ids = {}, position = 0, refresh = ''true'', calls = 0,
                 trace = [ReadState, Goto RECS_PAGE]\<rparr>"
    from run obtain st' where l: "loop L E max_items sort_condition page_size ?st = (None, st')"
      and o: "recs = out st'"
      by (auto simp: fetch_recommendations_via_api_def split: if_splits prod.splits option.splits)
    have "deduplicated (out ?st) (seen_ids ?st)"
      by (simp add: deduplicated_def ids_of_def)
    from loop_deduplicated [OF this l] o show ?thesis by (simp add: deduplicated_def)
  qed
  then show ?thesis
    by (auto simp: page_loop_skip page_loop_append normalize_job_jobId)
qed

theorem output_ids_distinct_witness:
  "\<exists>recs tr.
     fetch_recommendations_via_api example_lib
       (same_page [job_with_id (JStr ''a''), job_with_id (JStr ''a''), job_with_id (JStr ''b'')])
       5 0 10 = (Inr recs, tr) \<and>
     map jobId recs = [Some ''a'', Some ''b''] \<and> distinct (ids_of recs)"
proof -
  obtain recs tr where run:
    "fetch_recommendations_via_api example_lib
       (same_page [job_with_id (JStr ''a''), job_with_id (JStr ''a''), job_with_id (JStr ''b'')])
       5 0 10 = (Inr recs, tr)"
    and ids: "map jobId recs = [Some ''a'', Some ''b'']"
    by (simp add: run_defs)
  from output_ids_distinct
    [of example_lib
      "same_page [job_with_id (JStr ''a''), job_with_id (JStr ''a''), job_with_id (JStr ''b'')]"
      5 0 10 recs tr "[]" "{}" "[]" "[]" 0 undefined "''a''"] run
  have "distinct (ids_of recs)" by blast
  with run ids show ?thesis by (intro exI [of _ recs] exI [of _ tr] conjI)
qed

text \<open>
  C6 as stated fails for the empty id text: \<open>if job_id_str\<close> is false for it, so a record
  whose id is the empty string is neither looked up in the seen-ID set nor added to it,
  and two pages that return it give two records with the same present jobId.
\<close>

theorem empty_id_duplicated_counterexample:
  "\<exists>recs tr.
     fetch_recommendations_via_api example_lib (same_page [job_with_id (JStr '''')]) 2 0 1
       = (Inr recs, tr) \<and>
     map jobId recs = [Some '''', Some ''''] \<and> \<not> distinct (present_ids recs)"
  by (simp add: run_defs present_ids_def)

subsection \<open>The events of a run\<close>

lemma iteration_trace:
  "\<exists>evs. trace (state_of (iteration L E max_items sort_condition page_size s)) = trace s @ evs \<and>
         ReadState \<notin> set evs \<and> WriteState \<notin> set evs \<and>
         calls (state_of (iteration L E max_items sort_condition page_size s))
           = calls s + length (filter is_Get evs) \<and>
         length (filter is_Get evs) \<le> 2"
proof -
  obtain resp s1 where g: "get_page E s
      (request_url (refresh s) sort_condition (position s)
         (min page_size (max_items - int (length (out s))))) = (resp, s1)"
    by (metis surj_pair)
  from get_page_trace [OF g] obtain evs where e: "trace s1 = trace s @ evs"
    "set evs \<subseteq> {Get (request_url (refresh s) sort_condition (position s)
         (min page_size (max_items - int (length (out s))))), Goto RECS_PAGE}"
    "calls s1 = calls s + length (filter is_Get evs)" "length (filter is_Get evs) \<le> 2"
    by blast
  from e(2) have n: "ReadState \<notin> set evs" "WriteState \<notin> set evs" by auto
  from g show ?thesis
  proof (cases rule: iteration_cases [where L = L])
    case auth
    with e n show ?thesis by (intro exI [of _ "evs @ [CloseBrowser]"]) simp
  next
    case status
    with e n show ?thesis by (intro exI [of _ evs]) simp
  next
    case decode
    with e n show ?thesis by (intro exI [of _ evs]) simp
  next
    case (empty data)
    with e n show ?thesis by (intro exI [of _ "evs @ [DumpPayload data]"]) simp
  next
    case (raise data e')
    with e n show ?thesis by (intro exI [of _ evs]) simp
  next
    case (stall data acc seen)
    with e n show ?thesis by (intro exI [of _ evs]) simp
  next
    case (more data acc seen k)
    with e n show ?thesis by (intro exI [of _ evs]) simp
  qed
qed

lemma loop_trace:
  assumes "trace st = ReadState # evs" "ReadState \<notin> set evs" "WriteState \<notin> set evs"
  shows "\<exists>evs'. trace (snd (loop L E max_items sort_condition page_size st)) = ReadState # evs' \<and>
           ReadState \<notin> set evs' \<and> WriteState \<notin> set evs'"
proof -
  let ?I = "\<lambda>s. \<exists>evs'. trace s = ReadState # evs' \<and> ReadState \<notin> set evs' \<and> WriteState \<notin> set evs'"
  have step: "?I (state_of (iteration L E max_items sort_condition page_size s))" if "?I s" for s
  proof -
    from that obtain a where a: "trace s = ReadState # a" "ReadState \<notin> set a" "WriteState \<notin> set a"
      by blast
    from iteration_trace [of L E max_items sort_condition page_size s] obtain b where
      b: "trace (state_of (iteration L E max_items sort_condition page_size s)) = trace s @ b"
      "ReadState \<notin> set b" "WriteState \<notin> set b"
      by blast
    with a show ?thesis by (intro exI [of _ "a @ b"]) simp
  qed
  have "(\<lambda>r. ?I) (fst (loop L E max_items sort_condition page_size st))
          (snd (loop L E max_items sort_condition page_size st))"
  proof (rule loop_invariant [where I = ?I])
    from assms show "?I st" by blast
  next
    fix s s' assume "?I s" "iteration L E max_items sort_condition page_size s = Continue s'"
    with step [of s] show "?I s'" by simp
  next
    fix s s' assume "?I s" "iteration L E max_items sort_condition page_size s = Break s'"
    with step [of s] show "?I s'" by simp
  next
    fix s s' e assume "?I s" "iteration L E max_items sort_condition page_size s = Raise e s'"
    with step [of s] show "?I s'" by simp
  qed
  then show ?thesis .
qed

text \<open>
  C9 (as amended). The driver reads the session state once, at the start of a run, and
  writes the session-state file once: after the pagination loop has ended without an
  exception, right before it closes the browser, however many pages it has processed.
  A run that raises writes nothing.
\<close>

theorem session_state_written_once:
  assumes "fetch_recommendations_via_api L E max_items sort_condition page_size = (res, tr)"
  shows "hd tr = ReadState \<and> count_list tr ReadState = 1 \<and>
         (case res of
            Inr recs \<Rightarrow> count_list tr WriteState = 1 \<and>
                        (\<exists>pre. tr = pre @ [WriteState, CloseBrowser])
          | Inl e \<Rightarrow> count_list tr WriteState = 0)"
proof (cases "state_file_exists E")
  case False
  with assms show ?thesis by (auto simp: fetch_recommendations_via_api_def)
next
  case True
  let ?st = "\<lparr>out = [], seen_ids = {}, position = 0, refresh = ''true'', calls = 0,
               trace = [ReadState, Goto RECS_PAGE]\<rparr>"
  obtain r st' where l: "loop L E max_items sort_condition page_size ?st = (r, st')"
    by (metis surj_pair)
  have "\<exists>evs'. trace (snd (loop L E max_items sort_condition page_size ?st)) = ReadState # evs' \<and>
           ReadState \<notin> set evs' \<and> WriteState \<notin> set evs'"
    by (rule loop_trace [where evs = "[Goto RECS_PAGE]"]) simp_all
  with l obtain evs where t: "trace st' = ReadState # evs" "ReadState \<notin> set evs"
    "WriteState \<notin> set evs"
    by auto
  then have c: "count_list evs ReadState = 0" "count_list evs WriteState = 0"
    by (simp_all add: count_list_0_iff)
  show ?thesis
  proof (cases r)
    case None
    with assms True l have "res = Inr (out st')" "tr = trace st' @ [WriteState, CloseBrowser]"
      by (simp_all add: fetch_recommendations_via_api_def)
    with t c show ?thesis by simp
  next
    case (Some e)
    with assms True l have "res = Inl e" "tr = trace st'"
      by (simp_all add: fetch_recommendations_via_api_def)
    with t c show ?thesis by simp
  qed
qed

theorem session_state_written_once_witness:
  "\<exists>res tr. fetch_recommendations_via_api example_lib numbered_pages 2 0 1 = (res, tr) \<and>
     tr = [ReadState, Goto ''https://jobright.ai/jobs/recommend'',
       Get ''https://jobright.ai/swan/recommend/list/jobs?refresh=true&sortCondition=0&position=0&count=1'',
       Get ''https://jobright.ai/swan/recommend/list/jobs?refresh=false&sortCondition=0&position=1&count=1'',
       WriteState, CloseBrowser] \<and>
     hd tr = ReadState \<and> count_list tr ReadState = 1 \<and> count_list tr WriteState = 1"
proof -
  obtain recs tr where run:
    "fetch_recommendations_via_api example_lib numbered_pages 2 0 1 = (Inr recs, tr)"
    and tr: "tr = [ReadState, Goto ''https://jobright.ai/jobs/recommend'',
       Get ''https://jobright.ai/swan/recommend/list/jobs?refresh=true&sortCondition=0&position=0&count=1'',
       Get ''https://jobright.ai/swan/recommend/list/jobs?refresh=false&sortCondition=0&position=1&count=1'',
       WriteState, CloseBrowser]"
    by (simp add: run_defs)
  from session_state_written_once [OF run]
  have "hd tr = ReadState" "count_list tr ReadState = 1" "count_list tr WriteState = 1"
    by simp_all
  with run tr show ?thesis by (intro exI [of _ "Inr recs"] exI [of _ tr] conjI)
qed

text \<open>
  C9 as stated fails: the file is not written after each page. In a run of two pages,
  each answered with 200 and each adding a record, no write lies between the two requests;
  and in a run whose session expires after the first page, the page is processed and the
  file is never written.
\<close>

theorem session_state_not_written_per_page_counterexample:
  "(\<exists>recs tr. fetch_recommendations_via_api example_lib numbered_pages 2 0 1 = (Inr recs, tr) \<and>
      map jobId recs = [Some ''0'', Some ''1''] \<and>
      tr = [ReadState, Goto ''https://jobright.ai/jobs/recommend'',
        Get ''https://jobright.ai/swan/recommend/list/jobs?refresh=true&sortCondition=0&position=0&count=1'',
        Get ''https://jobright.ai/swan/recommend/list/jobs?refresh=false&sortCondition=0&position=1&count=1'',
        WriteState, CloseBrowser] \<and>
      \<not> written_after_each_page tr) \<and>
   (\<exists>e tr. fetch_recommendations_via_api example_lib expiring_session 2 0 1 = (Inl e, tr) \<and>
      tr = [ReadState, Goto ''https://jobright.ai/jobs/recommend'',
        Get ''https://jobright.ai/swan/recommend/list/jobs?refresh=true&sortCondition=0&position=0&count=1'',
        Get ''https://jobright.ai/swan/recommend/list/jobs?refresh=false&sortCondition=0&position=1&count=1'',
        Goto ''https://jobright.ai/jobs/recommend'',
        Get ''https://jobright.ai/swan/recommend/list/jobs?refresh=false&sortCondition=0&position=1&count=1'',
        CloseBrowser] \<and>
      WriteState \<notin> set tr)"
  by (simp add: run_defs)

subsection \<open>Termination and stalls\<close>

lemma page_loop_bound:
  assumes "page_loop L max_items js acc seen n = Inr (acc', seen', n')"
    and "int (length acc) < max_items"
  shows "int (length acc') \<le> max_items"
  using assms
proof (induction js arbitrary: acc seen n)
  case Nil
  then show ?case by simp
next
  case (Cons j js)
  show ?case
  proof (cases "seen_before (probe_id L j) seen")
    case True
    with Cons.prems(1) have "page_loop L max_items js acc seen n = Inr (acc', seen', n')"
      by (simp add: page_loop_skip)
    from Cons.IH [OF this Cons.prems(2)] show ?thesis .
  next
    case False
    show ?thesis
    proof (cases "normalize_job L j (probe_id L j)")
      case (Inl e)
      with False Cons.prems(1) show ?thesis by (simp add: page_loop_raise)
    next
      case (Inr r)
      show ?thesis
      proof (cases "int (length (acc @ [r])) \<ge> max_items")
        case True
        with False Inr Cons.prems show ?thesis by (auto simp: page_loop_append)
      next
        case nf: False
        with False Inr Cons.prems(1)
        have "page_loop L max_items js (acc @ [r]) (remember (probe_id L j) seen) (n + 1)
              = Inr (acc', seen', n')"
          by (simp add: page_loop_append)
        from Cons.IH [OF this] nf show ?thesis by simp
      qed
    qed
  qed
qed

lemma page_loop_all_seen:
  assumes "\<forall>j \<in> set js. seen_before (probe_id L j) seen"
  shows "page_loop L max_items js acc seen n = Inr (acc, seen, n)"
  using assms by (induction js) (simp_all add: page_loop_skip)

lemma remember_mono: "seen \<subseteq> remember i seen"
  by (cases i) auto

lemma page_loop_remembers:
  assumes "page_loop L max_items js acc seen n = Inr (acc', seen', n')"
  shows "seen \<subseteq> seen' \<and>
         (int (length acc') < max_items \<longrightarrow>
            (\<forall>j \<in> set js. \<forall>i. probe_id L j = Some i \<and> i \<noteq> [] \<longrightarrow> i \<in> seen'))"
  using assms
proof (induction js arbitrary: acc seen n)
  case Nil
  then show ?case by simp
next
  case (Cons j js)
  show ?case
  proof (cases "seen_before (probe_id L j) seen")
    case True
    with Cons.prems have "page_loop L max_items js acc seen n = Inr (acc', seen', n')"
      by (simp add: page_loop_skip)
    from Cons.IH [OF this] True show ?thesis
      by (cases "probe_id L j") auto
  next
    case False
    show ?thesis
    proof (cases "normalize_job L j (probe_id L j)")
      case (Inl e)
      with False Cons.prems show ?thesis by (simp add: page_loop_raise)
    next
      case (Inr r)
      show ?thesis
      proof (cases "int (length (acc @ [r])) \<ge> max_items")
        case True
        with False Inr Cons.prems have "acc' = acc @ [r]" "seen' = remember (probe_id L j) seen"
          by (auto simp: page_loop_append)
        with True remember_mono [of seen "probe_id L j"] show ?thesis by simp
      next
        case nf: False
        with False Inr Cons.prems
        have "page_loop L max_items js (acc @ [r]) (remember (probe_id L j) seen) (n + 1)
              = Inr (acc', seen', n')"
          by (simp add: page_loop_append)
        from Cons.IH [OF this] remember_mono [of seen "probe_id L j"] show ?thesis
          by (cases "probe_id L j") auto
      qed
    qed
  qed
qed

lemma iteration_Continue_bounded:
  assumes "iteration L E max_items sort_condition page_size st = Continue st'"
    and "int (length (out st)) < max_items"
  shows "int (length (out st')) \<le> max_items"
proof -
  obtain resp s1 where g: "get_page E st
      (request_url (refresh st) sort_condition (position st)
         (min page_size (max_items - int (length (out st))))) = (resp, s1)"
    by (metis surj_pair)
  from g show ?thesis
  proof (cases rule: iteration_cases [where L = L])
    case (more data acc seen n)
    from page_loop_bound [OF more(3) assms(2)] more(5) assms(1) show ?thesis by auto
  qed (use assms(1) in simp_all)
qed

lemma loop_requests:
  assumes "calls st \<le> 2 * length (out st)"
    and "length (filter is_Get (trace st)) = calls st"
    and "int (length (out st)) \<le> max max_items 0"
  shows "length (filter is_Get (trace (snd (loop L E max_items sort_condition page_size st))))
           \<le> 2 * nat max_items"
proof -
  let ?I = "\<lambda>s. calls s \<le> 2 * length (out s) \<and> length (filter is_Get (trace s)) = calls s \<and>
                 int (length (out s)) \<le> max max_items 0"
  let ?Q = "\<lambda>s. length (filter is_Get (trace s)) \<le> 2 * nat max_items"
  have turn: "length (filter is_Get (trace (state_of (iteration L E max_items sort_condition page_size s))))
                = calls (state_of (iteration L E max_items sort_condition page_size s)) \<and>
              calls (state_of (iteration L E max_items sort_condition page_size s)) \<le> calls s + 2"
    if "?I s" for s
    using iteration_trace [of L E max_items sort_condition page_size s] that by auto
  have "(\<lambda>r. ?Q) (fst (loop L E max_items sort_condition page_size st))
          (snd (loop L E max_items sort_condition page_size st))"
  proof (rule loop_invariant [where I = ?I])
    from assms show "?I st" by simp
  next
    fix s s' assume I: "?I s" and lt: "int (length (out s)) < max_items"
      and c: "iteration L E max_items sort_condition page_size s = Continue s'"
    from iteration_Continue_grows [OF c] iteration_Continue_bounded [OF c lt] turn [OF I] c I
    show "?I s'" by auto
  next
    fix s s' assume I: "?I s" and lt: "int (length (out s)) < max_items"
      and c: "iteration L E max_items sort_condition page_size s = Break s'"
    from turn [OF I] c I lt show "?Q s'" by auto
  next
    fix s s' e assume I: "?I s" and lt: "int (length (out s)) < max_items"
      and c: "iteration L E max_items sort_condition page_size s = Raise e s'"
    from turn [OF I] c I lt show "?Q s'" by auto
  next
    fix s assume I: "?I s" and "\<not> int (length (out s)) < max_items"
    then show "?Q s" by auto
  qed
  then show ?thesis .
qed

lemma fetch_requests:
  "length (filter is_Get (snd (fetch_recommendations_via_api L E max_items sort_condition page_size)))
     \<le> 2 * nat max_items"
proof (cases "state_file_exists E")
  case False
  then show ?thesis by (simp add: fetch_recommendations_via_api_def)
next
  case True
  let ?st = "\<lparr>out = [], seen_ids = {}, position = 0, refresh = ''true'', calls = 0,
               trace = [ReadState, Goto RECS_PAGE]\<rparr>"
  have "length (filter is_Get (trace (snd (loop L E max_items sort_condition page_size ?st))))
           \<le> 2 * nat max_items"
    by (rule loop_requests) simp_all
  with True show ?thesis
    by (auto simp: fetch_recommendations_via_api_def split: prod.splits option.splits)
qed

lemma after_turns_loop:
  assumes "after_turns L E max_items sort_condition page_size k st = Some st'"
  shows "loop L E max_items sort_condition page_size st =
         loop L E max_items sort_condition page_size st'"
  using assms
proof (induction k arbitrary: st)
  case 0
  then show ?case by simp
next
  case (Suc k)
  from Suc.prems have lt: "int (length (out st)) < max_items"
    by (simp split: if_splits)
  with Suc.prems obtain s where c: "iteration L E max_items sort_condition page_size st = Continue s"
    and a: "after_turns L E max_items sort_condition page_size k s = Some st'"
    by (cases "iteration L E max_items sort_condition page_size st") simp_all
  from loop_continue [OF lt c] Suc.IH [OF a] show ?case by simp
qed

lemma stall_stops:
  assumes lt: "int (length (out st)) < max_items"
    and first: "iteration L E max_items sort_condition page_size st = Continue st1"
    and data1: "body (turn_response E max_items sort_condition page_size st) = Inr data1"
    and lt1: "int (length (out st1)) < max_items"
    and ok: "status (turn_response E max_items sort_condition page_size st1) = 200"
    and data2: "body (turn_response E max_items sort_condition page_size st1) = Inr data2"
    and same: "\<forall>j2 \<in> set (extract_job_dicts data2). \<exists>i. i \<noteq> [] \<and> probe_id L j2 = Some i \<and>
                 Some i \<in> probe_id L ` set (extract_job_dicts data1)"
  shows "\<exists>st2. loop L E max_items sort_condition page_size st = (None, st2) \<and>
           out st2 = out st1"
proof -
  obtain resp s1 where g: "get_page E st
      (request_url (refresh st) sort_condition (position st)
         (min page_size (max_items - int (length (out st))))) = (resp, s1)"
    by (metis surj_pair)
  with data1 have b: "body resp = Inr data1"
    by (simp add: turn_response_def turn_url_def)
  from g have seen1: "\<forall>j \<in> set (extract_job_dicts data1). \<forall>i. probe_id L j = Some i \<and> i \<noteq> [] \<longrightarrow>
      i \<in> seen_ids st1"
  proof (cases rule: iteration_cases [where L = L])
    case (more data acc seen n)
    from more(5) first have "out st1 = acc" "seen_ids st1 = seen" by auto
    with page_loop_remembers [OF more(3)] lt1 more(2) b show ?thesis by auto
  qed (use first in simp_all)
  have all: "\<forall>j \<in> set (extract_job_dicts data2). seen_before (probe_id L j) (seen_ids st1)"
  proof
    fix j assume "j \<in> set (extract_job_dicts data2)"
    with same obtain i j1 where "i \<noteq> []" "probe_id L j = Some i"
      "j1 \<in> set (extract_job_dicts data1)" "probe_id L j1 = Some i"
      by (metis imageE)
    with seen1 show "seen_before (probe_id L j) (seen_ids st1)" by auto
  qed
  note p = page_loop_all_seen [OF all, of max_items "out st1" 0]
  obtain resp2 s2 where g2: "get_page E st1
      (request_url (refresh st1) sort_condition (position st1)
         (min page_size (max_items - int (length (out st1))))) = (resp2, s2)"
    by (metis surj_pair)
  then have r2: "turn_response E max_items sort_condition page_size st1 = resp2"
    by (simp add: turn_response_def turn_url_def)
  note f = get_page_frame [OF g2]
  from g2 have "\<exists>st2. iteration L E max_items sort_condition page_size st1 = Break st2 \<and>
                  out st2 = out st1"
  proof (cases rule: iteration_cases [where L = L])
    case auth
    with ok r2 show ?thesis by auto
  next
    case status
    with ok r2 show ?thesis by simp
  next
    case (decode e)
    with data2 r2 show ?thesis by simp
  next
    case (empty data)
    with f show ?thesis by simp
  next
    case (raise data e)
    with data2 r2 p show ?thesis by simp
  next
    case (stall data acc seen)
    with data2 r2 p f show ?thesis by simp
  next
    case (more data acc seen n)
    with data2 r2 p show ?thesis by simp
  qed
  with lt lt1 first show ?thesis
    by (auto simp: loop_continue loop_break)
qed

subsection \<open>Turns of the loop, classified\<close>

lemma page_loop_extends:
  assumes "page_loop L max_items js acc seen n = Inr (acc', seen', n')"
  shows "\<exists>new. acc' = acc @ new"
  using assms
proof (induction js arbitrary: acc seen n)
  case Nil
  then show ?case by simp
next
  case (Cons j js)
  show ?case
  proof (cases "seen_before (probe_id L j) seen")
    case True
    with Cons.prems have "page_loop L max_items js acc seen n = Inr (acc', seen', n')"
      by (simp add: page_loop_skip)
    then show ?thesis by (rule Cons.IH)
  next
    case False
    show ?thesis
    proof (cases "normalize_job L j (probe_id L j)")
      case (Inl e)
      with False Cons.prems show ?thesis by (simp add: page_loop_raise)
    next
      case (Inr r)
      show ?thesis
      proof (cases "int (length (acc @ [r])) \<ge> max_items")
        case True
        with False Inr Cons.prems show ?thesis by (auto simp: page_loop_append)
      next
        case nf: False
        with False Inr Cons.prems
        have "page_loop L max_items js (acc @ [r]) (remember (probe_id L j) seen) (n + 1)
              = Inr (acc', seen', n')"
          by (simp add: page_loop_append)
        from Cons.IH [OF this] show ?thesis by auto
      qed
    qed
  qed
qed

lemma iteration_classified:
  assumes lt: "int (length (out st)) < max_items"
  shows "case iteration L E max_items sort_condition page_size st of
         Continue st' \<Rightarrow>
           length (out st) < length (out st') \<and> int (length (out st')) \<le> max_items
       | Break st' \<Rightarrow>
           out st' = out st \<and>
           (status (turn_response E max_items sort_condition page_size st) \<noteq> 200 \<or>
            (\<exists>data. body (turn_response E max_items sort_condition page_size st) = Inr data \<and>
               (extract_job_dicts data = [] \<or>
                (\<exists>seen. page_loop L max_items (extract_job_dicts data) (out st) (seen_ids st) 0
                           = Inr (out st, seen, 0)))))
       | Raise e st' \<Rightarrow>
           ((status (turn_response E max_items sort_condition page_size st) = 401 \<or>
             status (turn_response E max_items sort_condition page_size st) = 403) \<and>
            e = PermissionError
                  (auth_message (turn_url max_items sort_condition page_size st)
                     (status (turn_response E max_items sort_condition page_size st)))) \<or>
           (status (turn_response E max_items sort_condition page_size st) = 200 \<and>
            body (turn_response E max_items sort_condition page_size st) = Inl e) \<or>
           (\<exists>data. body (turn_response E max_items sort_condition page_size st) = Inr data \<and>
              page_loop L max_items (extract_job_dicts data) (out st) (seen_ids st) 0 = Inl e)"
proof -
  obtain resp s1 where g: "get_page E st
      (request_url (refresh st) sort_condition (position st)
         (min page_size (max_items - int (length (out st))))) = (resp, s1)"
    by (metis surj_pair)
  then have r: "turn_response E max_items sort_condition page_size st = resp"
    by (simp add: turn_response_def turn_url_def)
  note f = get_page_frame [OF g]
  from g show ?thesis
  proof (cases rule: iteration_cases [where L = L])
    case auth
    then show ?thesis by (auto simp: r turn_url_def)
  next
    case status
    with f show ?thesis by (auto simp: r)
  next
    case (decode e)
    then show ?thesis by (auto simp: r)
  next
    case (empty data)
    with f show ?thesis by (auto simp: r)
  next
    case (raise data e)
    then show ?thesis by (auto simp: r)
  next
    case (stall data acc seen)
    from page_loop_added [OF stall(4)] page_loop_extends [OF stall(4)] have "acc = out st"
      by auto
    with stall show ?thesis by (auto simp: r)
  next
    case (more data acc seen n)
    from iteration_Continue_grows [OF more(5)] iteration_Continue_bounded [OF more(5) lt] more(5)
    show ?thesis by simp
  qed
qed

lemma stalled_run:
  assumes sf: "state_file_exists E"
    and k: "after_turns L E max_items sort_condition page_size k first_state = Some st"
    and lt: "int (length (out st)) < max_items"
    and first: "iteration L E max_items sort_condition page_size st = Continue st1"
    and data1: "body (turn_response E max_items sort_condition page_size st) = Inr data1"
    and lt1: "int (length (out st1)) < max_items"
    and ok: "status (turn_response E max_items sort_condition page_size st1) = 200"
    and data2: "body (turn_response E max_items sort_condition page_size st1) = Inr data2"
    and same: "\<forall>j2 \<in> set (extract_job_dicts data2). \<exists>i. i \<noteq> [] \<and> probe_id L j2 = Some i \<and>
                 Some i \<in> probe_id L ` set (extract_job_dicts data1)"
  shows "fst (fetch_recommendations_via_api L E max_items sort_condition page_size)
           = Inr (out st1)"
proof -
  from stall_stops [OF lt first data1 lt1 ok data2 same]
  obtain st2 where "loop L E max_items sort_condition page_size st = (None, st2)"
    and "out st2 = out st1"
    by blast
  with after_turns_loop [OF k]
  have "loop L E max_items sort_condition page_size first_state = (None, st2)" by simp
  with sf \<open>out st2 = out st1\<close> show ?thesis
    by (simp add: fetch_recommendations_via_api_def first_state_def)
qed

text \<open>
  C5 (as amended). The pagination loop always terminates. Every turn of the loop either
  goes on with strictly more records than before, at most \<open>max_items\<close>; or leaves the
  loop, the records as they were, by one of the stop conditions: a status other than 200,
  a page in which no job is discovered, a page that adds no record; or ends the run with
  an exception: the authorization failure after the retry, the exception \<open>resp.json()\<close>
  raises on the body of a 200 answer, an exception raised while a record is normalized.
  A run makes at most \<open>2 * max_items\<close> requests. When a run has processed a page without
  reaching the maximum, and the answer to the next request (to its repetition, after 401
  or 403) is a 200 page of jobs whose ids are all present, not empty and among the ids of
  the jobs of the page before, the run stops there and returns the records it had after
  the earlier page.
\<close>

theorem pagination_terminates:
  "(int (length (out st)) < max_items \<longrightarrow>
      (case iteration L E max_items sort_condition page_size st of
         Continue st' \<Rightarrow>
           length (out st) < length (out st') \<and> int (length (out st')) \<le> max_items
       | Break st' \<Rightarrow>
           out st' = out st \<and>
           (status (turn_response E max_items sort_condition page_size st) \<noteq> 200 \<or>
            (\<exists>data. body (turn_response E max_items sort_condition page_size st) = Inr data \<and>
               (extract_job_dicts data = [] \<or>
                (\<exists>seen. page_loop L max_items (extract_job_dicts data) (out st) (seen_ids st) 0
                           = Inr (out st, seen, 0)))))
       | Raise e st' \<Rightarrow>
           ((status (turn_response E max_items sort_condition page_size st) = 401 \<or>
             status (turn_response E max_items sort_condition page_size st) = 403) \<and>
            e = PermissionError
                  (auth_message (turn_url max_items sort_condition page_size st)
                     (status (turn_response E max_items sort_condition page_size st)))) \<or>
           (status (turn_response E max_items sort_condition page_size st) = 200 \<and>
            body (turn_response E max_items sort_condition page_size st) = Inl e) \<or>
           (\<exists>data. body (turn_response E max_items sort_condition page_size st) = Inr data \<and>
              page_loop L max_items (extract_job_dicts data) (out st) (seen_ids st) 0 = Inl e))) \<and>
   length (filter is_Get
     (snd (fetch_recommendations_via_api L E max_items sort_condition page_size)))
     \<le> 2 * nat max_items \<and>
   (state_file_exists E \<and>
    after_turns L E max_items sort_condition page_size k first_state = Some st \<and>
    int (length (out st)) < max_items \<and>
    iteration L E max_items sort_condition page_size st = Continue st1 \<and>
    body (turn_response E max_items sort_condition page_size st) = Inr data1 \<and>
    int (length (out st1)) < max_items \<and>
    status (turn_response E max_items sort_condition page_size st1) = 200 \<and>
    body (turn_response E max_items sort_condition page_size st1) = Inr data2 \<and>
    (\<forall>j2 \<in> set (extract_job_dicts data2). \<exists>i. i \<noteq> [] \<and> probe_id L j2 = Some i \<and>
        Some i \<in> probe_id L ` set (extract_job_dicts data1)) \<longrightarrow>
    fst (fetch_recommendations_via_api L E max_items sort_condition page_size)
      = Inr (out st1))"
proof (intro conjI impI)
  assume "int (length (out st)) < max_items"
  then show "case iteration L E max_items sort_condition page_size st of
         Continue st' \<Rightarrow>
           length (out st) < length (out st') \<and> int (length (out st')) \<le> max_items
       | Break st' \<Rightarrow>
           out st' = out st \<and>
           (status (turn_response E max_items sort_condition page_size st) \<noteq> 200 \<or>
            (\<exists>data. body (turn_response E max_items sort_condition page_size st) = Inr data \<and>
               (extract_job_dicts data = [] \<or>
                (\<exists>seen. page_loop L max_items (extract_job_dicts data) (out st) (seen_ids st) 0
                           = Inr (out st, seen, 0)))))
       | Raise e st' \<Rightarrow>
           ((status (turn_response E max_items sort_condition page_size st) = 401 \<or>
             status (turn_response E max_items sort_condition page_size st) = 403) \<and>
            e = PermissionError
                  (auth_message (turn_url max_items sort_condition page_size st)
                     (status (turn_response E max_items sort_condition page_size st)))) \<or>
           (status (turn_response E max_items sort_condition page_size st) = 200 \<and>
            body (turn_response E max_items sort_condition page_size st) = Inl e) \<or>
           (\<exists>data. body (turn_response E max_items sort_condition page_size st) = Inr data \<and>
              page_loop L max_items (extract_job_dicts data) (out st) (seen_ids st) 0 = Inl e)"
    by (rule iteration_classified)
next
  show "length (filter is_Get
     (snd (fetch_recommendations_via_api L E max_items sort_condition page_size)))
     \<le> 2 * nat max_items"
    by (rule fetch_requests)
next
  assume a: "state_file_exists E \<and>
    after_turns L E max_items sort_condition page_size k first_state = Some st \<and>
    int (length (out st)) < max_items \<and>
    iteration L E max_items sort_condition page_size st = Continue st1 \<and>
    body (turn_response E max_items sort_condition page_size st) = Inr data1 \<and>
    int (length (out st1)) < max_items \<and>
    status (turn_response E max_items sort_condition page_size st1) = 200 \<and>
    body (turn_response E max_items sort_condition page_size st1) = Inr data2 \<and>
    (\<forall>j2 \<in> set (extract_job_dicts data2). \<exists>i. i \<noteq> [] \<and> probe_id L j2 = Some i \<and>
        Some i \<in> probe_id L ` set (extract_job_dicts data1))"
  show "fst (fetch_recommendations_via_api L E max_items sort_condition page_size)
      = Inr (out st1)"
  proof (rule stalled_run [where k = k and st = st and ?data1.0 = data1 and ?data2.0 = data2])
    from a show "state_file_exists E" by (rule conjunct1)
    from a show "after_turns L E max_items sort_condition page_size k first_state = Some st"
      by (elim conjE)
    from a show "int (length (out st)) < max_items" by (elim conjE)
    from a show "iteration L E max_items sort_condition page_size st = Continue st1"
      by (elim conjE)
    from a show "body (turn_response E max_items sort_condition page_size st) = Inr data1"
      by (elim conjE)
    from a show "int (length (out st1)) < max_items" by (elim conjE)
    from a show "status (turn_response E max_items sort_condition page_size st1) = 200"
      by (elim conjE)
    from a show "body (turn_response E max_items sort_condition page_size st1) = Inr data2"
      by (elim conjE)
    from a show "\<forall>j2 \<in> set (extract_job_dicts data2). \<exists>i. i \<noteq> [] \<and> probe_id L j2 = Some i \<and>
        Some i \<in> probe_id L ` set (extract_job_dicts data1)" by (elim conjE)
  qed
qed

theorem pagination_terminates_witness:
  "\<exists>recs tr.
     fetch_recommendations_via_api example_lib
       (session_refreshed [job_with_id (JStr ''a''), job_with_id (JStr ''b'')]) 5 0 10
       = (Inr recs, tr) \<and>
     map jobId recs = [Some ''a'', Some ''b''] \<and>
     tr = [ReadState, Goto ''https://jobright.ai/jobs/recommend'',
       Get ''https://jobright.ai/swan/recommend/list/jobs?refresh=true&sortCondition=0&position=0&count=5'',
       Get ''https://jobright.ai/swan/recommend/list/jobs?refresh=false&sortCondition=0&position=5&count=3'',
       Goto ''https://jobright.ai/jobs/recommend'',
       Get ''https://jobright.ai/swan/recommend/list/jobs?refresh=false&sortCondition=0&position=5&count=3'',
       WriteState, CloseBrowser] \<and>
     length (filter is_Get tr) \<le> 2 * nat 5"
proof -
  let ?E = "session_refreshed [job_with_id (JStr ''a''), job_with_id (JStr ''b'')]"
  let ?recs = "[\<lparr>jobId = Some ''a'', title = JStr ''Software Engineer'',
            company = JStr ''Acme'', location = JNull,
            jobright_url = Some ''https://jobright.ai/jobs/info/a'',
            apply_url = None, linkedin_recruiters = [], keyword_list = [],
            raw =
              [(''jobInfoId'', JStr ''a''),
               (''jobTitle'', JStr ''Software Engineer''),
               (''companyName'', JStr ''Acme'')]\<rparr>,
         \<lparr>jobId = Some ''b'', title = JStr ''Software Engineer'',
            company = JStr ''Acme'', location = JNull,
            jobright_url = Some ''https://jobright.ai/jobs/info/b'',
            apply_url = None, linkedin_recruiters = [], keyword_list = [],
            raw =
              [(''jobInfoId'', JStr ''b''),
               (''jobTitle'', JStr ''Software Engineer''),
               (''companyName'', JStr ''Acme'')]\<rparr>]"
  let ?url0 = "''https://jobright.ai/swan/recommend/list/jobs?refresh=true&sortCondition=0&position=0&count=5''"
  let ?url1 = "''https://jobright.ai/swan/recommend/list/jobs?refresh=false&sortCondition=0&position=5&count=3''"
  let ?st1 = "\<lparr>out = ?recs, seen_ids = {''b'', ''a''}, position = 5, refresh = ''false'',
        calls = Suc 0,
        trace = [ReadState, Goto ''https://jobright.ai/jobs/recommend'', Get ?url0]\<rparr>"
  let ?tr = "[ReadState, Goto ''https://jobright.ai/jobs/recommend'', Get ?url0, Get ?url1,
         Goto ''https://jobright.ai/jobs/recommend'', Get ?url1, WriteState, CloseBrowser]"
  let ?data = "JDict [(''data'', JList [job_with_id (JStr ''a''), job_with_id (JStr ''b'')])]"
  have 0: "state_file_exists ?E" by (simp add: session_refreshed_def)
  have k: "after_turns example_lib ?E 5 0 10 0 first_state = Some first_state" by simp
  have 1: "int (length (out first_state)) < 5" by (simp add: first_state_def)
  have 2: "iteration example_lib ?E 5 0 10 first_state = Continue ?st1"
    by (simp add: run_defs turn_url_def)
  have 3: "body (turn_response ?E 5 0 10 first_state) = Inr ?data"
    by (simp add: run_defs turn_response_def turn_url_def)
  have 4: "int (length (out ?st1)) < 5" by simp
  have 5: "status (turn_response ?E 5 0 10 ?st1) = 200"
    by (simp add: run_defs turn_response_def turn_url_def)
  have 6: "body (turn_response ?E 5 0 10 ?st1) = Inr ?data"
    by (simp add: run_defs turn_response_def turn_url_def)
  have 8: "\<forall>j2 \<in> set (extract_job_dicts ?data). \<exists>i. i \<noteq> [] \<and> probe_id example_lib j2 = Some i \<and>
        Some i \<in> probe_id example_lib ` set (extract_job_dicts ?data)"
    by (simp add: run_defs)
  from pagination_terminates
    [where st = first_state and max_items = 5 and L = example_lib and E = ?E
       and sort_condition = 0 and page_size = 10 and k = 0 and ?st1.0 = ?st1
       and ?data1.0 = ?data and ?data2.0 = ?data] 0 k 1 2 3 4 5 6 8
  have l: "fst (fetch_recommendations_via_api example_lib ?E 5 0 10) = Inr (out ?st1)"
    and b: "length (filter is_Get (snd (fetch_recommendations_via_api example_lib ?E 5 0 10)))
               \<le> 2 * nat 5"
    by blast+
  have t: "snd (fetch_recommendations_via_api example_lib ?E 5 0 10) = ?tr"
    by (simp add: run_defs)
  from l t have run: "fetch_recommendations_via_api example_lib ?E 5 0 10 = (Inr ?recs, ?tr)"
    by (simp add: prod_eq_iff)
  from b show ?thesis
    unfolding run
    by (intro exI [of _ ?recs] exI [of _ ?tr] conjI) simp_all
qed

text \<open>
  C5 as stated fails in two places. A turn can end the run without a new record and
  without one of the three stop conditions: on a 200 answer whose body is not JSON, or
  holds an integer too long to convert, the run raises. And two consecutive pages with
  the same id need not stop the run: when the id is the empty text, the record is
  appended again from every page.
\<close>

theorem pagination_stop_counterexample:
  "fetch_recommendations_via_api example_lib not_json 1 0 1 =
     (Inl JSONDecodeError,
      [ReadState, Goto ''https://jobright.ai/jobs/recommend'',
       Get ''https://jobright.ai/swan/recommend/list/jobs?refresh=true&sortCondition=0&position=0&count=1'']) \<and>
   fst (fetch_recommendations_via_api example_lib oversized_integer 1 0 1) = Inl ValueError \<and>
   (\<exists>recs tr.
      fetch_recommendations_via_api example_lib (same_page [job_with_id (JStr '''')]) 3 0 1
        = (Inr recs, tr) \<and>
      map jobId recs = [Some '''', Some '''', Some ''''] \<and>
      tr = [ReadState, Goto ''https://jobright.ai/jobs/recommend'',
        Get ''https://jobright.ai/swan/recommend/list/jobs?refresh=true&sortCondition=0&position=0&count=1'',
        Get ''https://jobright.ai/swan/recommend/list/jobs?refresh=false&sortCondition=0&position=1&count=1'',
        Get ''https://jobright.ai/swan/recommend/list/jobs?refresh=false&sortCondition=0&position=2&count=1'',
        WriteState, CloseBrowser])"
  by (simp add: run_defs)

end
